theory Spec2Isabelle
  imports Main "HOL-Library.Sublist"
begin

section \<open>Python values and failures\<close>

text \<open>
  The converter works on the nested mapping that the XML parser returns: strings,
  \<open>None\<close> (an empty element), lists (a repeated element) and dictionaries (an element
  with children or attributes; insertion ordered, keys unique). A Python \<open>str\<close> is
  modelled as the list of its characters, a character being its code point; the type
  \<open>char\<close> has the code points below 256, and a text with any other character is
  outside the model. Every exception the code can raise is a value of \<open>error\<close>;
  \<open>binascii.Error\<close> is a subclass of \<open>ValueError\<close> and is recorded as such, and
  \<open>OSError\<close> stands for its subclasses \<open>FileNotFoundError\<close> and
  \<open>IsADirectoryError\<close> too.
\<close>

datatype pyval = PNone | PStr string | PList "pyval list" | PDict "(string \<times> pyval) list"

datatype error = KeyError | TypeError | ValueError | IndexError | AttributeError | NameError | OSError

definition bindE :: "error + 'a \<Rightarrow> ('a \<Rightarrow> error + 'b) \<Rightarrow> error + 'b" where
  "bindE m f = (case m of Inl e \<Rightarrow> Inl e | Inr x \<Rightarrow> f x)"

fun mapE :: "('a \<Rightarrow> error + 'b) \<Rightarrow> 'a list \<Rightarrow> error + 'b list" where
  "mapE f [] = Inr []"
| "mapE f (x # xs) = bindE (f x) (\<lambda>y. bindE (mapE f xs) (\<lambda>ys. Inr (y # ys)))"

abbreviation NL :: char where "NL \<equiv> CHR 0x0A"
abbreviation TAB :: char where "TAB \<equiv> CHR 0x09"
abbreviation BSL :: char where "BSL \<equiv> CHR 0x5C"

text \<open>\<open>d[k]\<close>: only a dictionary can be indexed by a string.\<close>

definition getitem :: "pyval \<Rightarrow> string \<Rightarrow> error + pyval" where
  "getitem d k = (case d of
       PDict kvs \<Rightarrow> (case map_of kvs k of None \<Rightarrow> Inl KeyError | Some v \<Rightarrow> Inr v)
     | _ \<Rightarrow> Inl TypeError)"

text \<open>\<open>occurs p s\<close>: the string \<open>p\<close> occurs in \<open>s\<close> as a contiguous substring.\<close>

fun occurs :: "string \<Rightarrow> string \<Rightarrow> bool" where
  "occurs p [] = (p = [])"
| "occurs p (c # cs) = (prefix p (c # cs) \<or> occurs p cs)"

text \<open>\<open>k in d\<close> for a string \<open>k\<close>.\<close>

definition py_in :: "string \<Rightarrow> pyval \<Rightarrow> error + bool" where
  "py_in k d = (case d of
       PDict kvs \<Rightarrow> Inr (k \<in> set (map fst kvs))
     | PList xs \<Rightarrow> Inr (PStr k \<in> set xs)
     | PStr s \<Rightarrow> Inr (occurs k s)
     | PNone \<Rightarrow> Inl TypeError)"

text \<open>\<open>for x in d\<close>: a dictionary yields its keys, a string its characters.\<close>

definition py_iter :: "pyval \<Rightarrow> error + pyval list" where
  "py_iter d = (case d of
       PList xs \<Rightarrow> Inr xs
     | PDict kvs \<Rightarrow> Inr (map (\<lambda>kv. PStr (fst kv)) kvs)
     | PStr s \<Rightarrow> Inr (map (\<lambda>c. PStr [c]) s)
     | PNone \<Rightarrow> Inl TypeError)"

text \<open>\<open>x if isinstance(x, list) else [x]\<close>.\<close>

definition as_list :: "pyval \<Rightarrow> pyval list" where
  "as_list d = (case d of PList xs \<Rightarrow> xs | _ \<Rightarrow> [d])"

text \<open>\<open>s + x\<close> for a string \<open>s\<close>: \<open>x\<close> must be a string.\<close>

definition str_add :: "string \<Rightarrow> pyval \<Rightarrow> error + string" where
  "str_add s x = (case x of PStr t \<Rightarrow> Inr (s @ t) | _ \<Rightarrow> Inl TypeError)"

text \<open>\<open>x += s\<close> for a string \<open>s\<close>: a list is extended by the characters of \<open>s\<close>.\<close>

definition py_iadd :: "pyval \<Rightarrow> string \<Rightarrow> error + pyval" where
  "py_iadd x s = (case x of
       PStr t \<Rightarrow> Inr (PStr (t @ s))
     | PList xs \<Rightarrow> Inr (PList (xs @ map (\<lambda>c. PStr [c]) s))
     | _ \<Rightarrow> Inl TypeError)"

definition is_list :: "pyval \<Rightarrow> bool" where
  "is_list x = (case x of PList xs \<Rightarrow> True | _ \<Rightarrow> False)"

text \<open>
  A list is extended by \<open>+=\<close> in place, so that whatever holds the list holds the
  extended one. \<open>with_text r v\<close> is the question record \<open>r\<close> once the list that is
  its text, \<open>r['questiontext']['text']\<close>, has become \<open>v\<close>.
\<close>

definition with_item :: "pyval \<Rightarrow> string \<Rightarrow> pyval \<Rightarrow> pyval" where
  "with_item d k v =
     (case d of PDict kvs \<Rightarrow> PDict (map (\<lambda>kv. if fst kv = k then (k, v) else kv) kvs) | _ \<Rightarrow> d)"

definition with_text :: "pyval \<Rightarrow> pyval \<Rightarrow> pyval" where
  "with_text r v =
     (case getitem r ''questiontext'' of
        Inr qt \<Rightarrow> with_item r ''questiontext'' (with_item qt ''text'' v)
      | Inl e \<Rightarrow> r)"

text \<open>\<open>len(x)\<close>.\<close>

definition py_len :: "pyval \<Rightarrow> error + nat" where
  "py_len x = (case x of
       PStr t \<Rightarrow> Inr (length t)
     | PList xs \<Rightarrow> Inr (length xs)
     | PDict kvs \<Rightarrow> Inr (length kvs)
     | PNone \<Rightarrow> Inl TypeError)"

section \<open>String primitives\<close>

text \<open>
  \<open>str.replace(old, new)\<close> and \<open>re.sub\<close> of a literal pattern: every occurrence of
  \<open>old\<close>, leftmost first and without overlap. Every pattern of the program is
  non-empty; an empty one is left alone here.
\<close>

function replace :: "string \<Rightarrow> string \<Rightarrow> string \<Rightarrow> string" where
  "replace old new [] = []"
| "replace old new (c # cs) =
     (if old \<noteq> [] \<and> prefix old (c # cs)
      then new @ replace old new (drop (length old) (c # cs))
      else c # replace old new cs)"
  by pat_completeness auto
termination
  by (relation "measure (\<lambda>(old, new, s). length s)") auto

text \<open>
  The lazy group \<open>(.*?)\<close> followed by a literal \<open>cl\<close>: the shortest run of
  characters other than newline after which \<open>cl\<close> stands; the result is the run and
  the text after \<open>cl\<close>.
\<close>

fun find_close :: "string \<Rightarrow> string \<Rightarrow> (string \<times> string) option" where
  "find_close cl [] = (if cl = [] then Some ([], []) else None)"
| "find_close cl (c # cs) =
     (if prefix cl (c # cs) then Some ([], drop (length cl) (c # cs))
      else if c = NL then None
      else (case find_close cl cs of
              None \<Rightarrow> None
            | Some (g, r) \<Rightarrow> Some (c # g, r)))"

lemma find_close_length:
  "find_close cl s = Some (g, r) \<Longrightarrow> length g + length cl + length r = length s"
proof (induction s arbitrary: g)
  case Nil
  then show ?case by (simp split: if_splits)
next
  case (Cons c cs)
  show ?case
  proof (cases "prefix cl (c # cs)")
    case True
    with Cons.prems have "g = []" "r = drop (length cl) (c # cs)" by simp_all
    moreover from True have "length cl \<le> length (c # cs)" by (rule prefix_length_le)
    ultimately show ?thesis by simp
  next
    case False
    with Cons.prems obtain g' where "find_close cl cs = Some (g', r)" "g = c # g'"
      by (auto split: if_splits option.splits)
    with Cons.IH show ?thesis by fastforce
  qed
qed

text \<open>
  \<open>re.sub(op (.*?) cl, f, s)\<close> for literal \<open>op\<close> and \<open>cl\<close>: scanning from the left,
  a match at the current position is replaced by \<open>f\<close> of its group and the scan goes
  on behind the match; otherwise the character is kept.
\<close>

function re_sub :: "string \<Rightarrow> string \<Rightarrow> (string \<Rightarrow> string) \<Rightarrow> string \<Rightarrow> string" where
  "re_sub opn cl f [] = []"
| "re_sub opn cl f (c # cs) =
     (if opn \<noteq> [] \<and> prefix opn (c # cs)
      then (case find_close cl (drop (length opn) (c # cs)) of
              Some (g, r) \<Rightarrow> f g @ re_sub opn cl f r
            | None \<Rightarrow> c # re_sub opn cl f cs)
      else c # re_sub opn cl f cs)"
  by pat_completeness auto
termination
proof (relation "measure (\<lambda>(opn, cl, f, s). length s)")
  show "wf (measure (\<lambda>(opn, cl, f, s). length s))" by simp
next
  fix opn :: string and cl f c cs x2 g r
  assume "opn \<noteq> [] \<and> prefix opn (c # cs)"
    and "find_close cl (drop (length opn) (c # cs)) = Some x2"
    and "(g, r) = x2"
  then have "length r \<le> length (drop (length opn) (c # cs))" and "opn \<noteq> []"
    by (auto dest: find_close_length)
  then show "((opn, cl, f, r), opn, cl, f, c # cs) \<in> measure (\<lambda>(opn, cl, f, s). length s)"
    by (cases opn) auto
qed auto

text \<open>\<open>re.findall(op (.*?) cl, s)\<close>: the groups of the same matches.\<close>

function re_findall :: "string \<Rightarrow> string \<Rightarrow> string \<Rightarrow> string list" where
  "re_findall opn cl [] = []"
| "re_findall opn cl (c # cs) =
     (if opn \<noteq> [] \<and> prefix opn (c # cs)
      then (case find_close cl (drop (length opn) (c # cs)) of
              Some (g, r) \<Rightarrow> g # re_findall opn cl r
            | None \<Rightarrow> re_findall opn cl cs)
      else re_findall opn cl cs)"
  by pat_completeness auto
termination
proof (relation "measure (\<lambda>(opn, cl, s). length s)")
  show "wf (measure (\<lambda>(opn, cl, s). length s))" by simp
next
  fix opn :: string and cl c cs x2 g r
  assume "opn \<noteq> [] \<and> prefix opn (c # cs)"
    and "find_close cl (drop (length opn) (c # cs)) = Some x2"
    and "(g, r) = x2"
  then have "length r \<le> length (drop (length opn) (c # cs))" and "opn \<noteq> []"
    by (auto dest: find_close_length)
  then show "((opn, cl, r), opn, cl, c # cs) \<in> measure (\<lambda>(opn, cl, s). length s)"
    by (cases opn) auto
qed auto

text \<open>\<open>s.split(sep)\<close> for a one-character separator: at least one piece.\<close>

fun split_on :: "char \<Rightarrow> string \<Rightarrow> string list" where
  "split_on sep [] = [[]]"
| "split_on sep (c # cs) =
     (case split_on sep cs of
        [] \<Rightarrow> []
      | p # ps \<Rightarrow> if c = sep then [] # p # ps else (c # p) # ps)"

text \<open>\<open>xs[i]\<close> for a non-negative index.\<close>

definition nth_item :: "'a list \<Rightarrow> nat \<Rightarrow> error + 'a" where
  "nth_item xs i = (if i < length xs then Inr (xs ! i) else Inl IndexError)"

section \<open>The text normalizer\<close>

definition wrap_dollars :: "string \<Rightarrow> string" where
  "wrap_dollars g = ''$$'' @ g @ ''$$''"

text \<open>\<open>''.join(input.split('\n'))\<close>.\<close>

definition strip_newlines :: "string \<Rightarrow> string" where
  "strip_newlines s = filter (\<lambda>c. c \<noteq> NL) s"

text \<open>The branch \<open>format == 'html'\<close> of \<open>_cleanstring\<close>, statement by statement.\<close>

definition cleanstring_html :: "string \<Rightarrow> string" where
  "cleanstring_html input =
     (let output1 = strip_newlines input;
          output2 = re_sub ''$'' ''$'' wrap_dollars output1;
          output3 = re_sub [BSL, CHR ''(''] [BSL, CHR '')''] wrap_dollars output2;
          output4 = re_sub [BSL, CHR ''[''] [BSL, CHR '']''] wrap_dollars output3;
          output5 = re_sub ''<p '' ''>'' (\<lambda>g. ''<p>'') output4
      in replace ''<p></p>'' [] output5)"

text \<open>
  The branch \<open>moodle_auto_format\<close>: \<open>re.sub(r"^\$(.*?)\$$", ...)\<close>. The pattern is
  anchored at both ends; \<open>$\<close> also matches before a newline that ends the string,
  and the group cannot contain a newline.
\<close>

definition auto_dollar :: "string \<Rightarrow> string" where
  "auto_dollar s =
     (case s of
        [] \<Rightarrow> s
      | c # cs \<Rightarrow>
          if c \<noteq> CHR ''$'' then s
          else (let ends_nl = (cs \<noteq> [] \<and> last cs = NL);
                    body = (if ends_nl then butlast cs else cs)
                in if body \<noteq> [] \<and> last body = CHR ''$'' \<and> NL \<notin> set (butlast body)
                   then wrap_dollars (butlast body) @ (if ends_nl then [NL] else [])
                   else s))"

text \<open>
  \<open>_cleanstring(input, format)\<close>. An unhandled format is reported on the console
  (not modelled) and the input returned as it is, whatever its type.
\<close>

definition cleanstring :: "pyval \<Rightarrow> pyval \<Rightarrow> error + pyval" where
  "cleanstring input format =
     (if input = PNone then Inr (PStr [])
      else if format = PStr ''html'' then
        (case input of PStr s \<Rightarrow> Inr (PStr (cleanstring_html s)) | _ \<Rightarrow> Inl AttributeError)
      else if format = PStr ''moodle_auto_format'' then
        (case input of PStr s \<Rightarrow> Inr (PStr (auto_dollar s)) | _ \<Rightarrow> Inl TypeError)
      else Inr input)"

text \<open>
  In its last branch \<open>_cleanstring\<close> returns its argument itself and not a new
  value: the caller then holds the object that the record holds.
\<close>

definition returns_input :: "pyval \<Rightarrow> pyval \<Rightarrow> bool" where
  "returns_input input format =
     (input \<noteq> PNone \<and> format \<noteq> PStr ''html'' \<and> format \<noteq> PStr ''moodle_auto_format'')"

section \<open>Library functions: numbers, base64, \<open>str\<close>\<close>

text \<open>
  \<open>int(s)\<close> and \<open>float(s)\<close> of the Python library on a \<open>str\<close>: surrounding
  whitespace is dropped, a sign may come first, and the digits may be grouped by
  single underscores. The whitespace that the two functions drop is the six ASCII
  characters of \<open>isspace\<close> in C (the separators \<open>0x1C\<close> to \<open>0x1F\<close> are not
  among them) and, above the ASCII range, the characters that Unicode has as
  whitespace, of which \<open>0x85\<close> and \<open>0xA0\<close> are below 256. (The library's limit on
  the length of an integer literal is not modelled.)
\<close>

definition is_space :: "char \<Rightarrow> bool" where
  "is_space c = (c \<in> set [CHR 0x09, CHR 0x0A, CHR 0x0B, CHR 0x0C, CHR 0x0D, CHR 0x20,
                           CHR 0x85, CHR 0xA0])"

definition strip :: "string \<Rightarrow> string" where
  "strip s = rev (dropWhile is_space (rev (dropWhile is_space s)))"

definition is_digit :: "char \<Rightarrow> bool" where
  "is_digit c = (c \<in> set ''0123456789'')"

definition digit_val :: "char \<Rightarrow> nat" where
  "digit_val c = of_char c - 48"

definition nat_of_digits :: "string \<Rightarrow> nat" where
  "nat_of_digits ds = foldl (\<lambda>n c. 10 * n + digit_val c) 0 ds"

text \<open>A digit part: digits with single underscores between them; the digits are returned.\<close>

fun digitpart :: "string \<Rightarrow> string option" where
  "digitpart [] = None"
| "digitpart (c # cs) =
     (if \<not> is_digit c then None
      else (case cs of
              [] \<Rightarrow> Some [c]
            | d # ds \<Rightarrow> map_option ((#) c) (digitpart (if d = CHR ''_'' then ds else cs))))"

definition split_sign :: "string \<Rightarrow> bool \<times> string" where
  "split_sign s = (case s of
       [] \<Rightarrow> (False, [])
     | c # cs \<Rightarrow> if c = CHR ''-'' then (True, cs) else if c = CHR ''+'' then (False, cs) else (False, s))"

definition py_int :: "pyval \<Rightarrow> error + int" where
  "py_int x = (case x of
       PStr s \<Rightarrow>
         (let (neg, body) = split_sign (strip s)
          in case digitpart body of
               None \<Rightarrow> Inl ValueError
             | Some ds \<Rightarrow> Inr (if neg then - int (nat_of_digits ds) else int (nat_of_digits ds)))
     | _ \<Rightarrow> Inl TypeError)"

definition lower :: "string \<Rightarrow> string" where
  "lower s = map (\<lambda>c. if of_char c \<ge> (65::nat) \<and> of_char c \<le> (90::nat) then char_of (of_char c + (32::nat)) else c) s"

text \<open>The text up to the first character satisfying \<open>P\<close>, and what follows it, if any.\<close>

definition cut_at :: "(char \<Rightarrow> bool) \<Rightarrow> string \<Rightarrow> string \<times> string option" where
  "cut_at P s = (takeWhile (\<lambda>c. \<not> P c) s,
                 case dropWhile (\<lambda>c. \<not> P c) s of [] \<Rightarrow> None | c # cs \<Rightarrow> Some cs)"

text \<open>An optional digit part: the empty text stands for no digits.\<close>

definition opt_digits :: "string \<Rightarrow> string option" where
  "opt_digits s = (if s = [] then Some [] else digitpart s)"

text \<open>
  A decimal literal \<open>m \<times> 10 ^ e\<close> as the pair of \<open>m\<close> and \<open>e\<close>: an integer part and a
  fraction part, not both empty, and an exponent part.
\<close>

definition decimal :: "string \<Rightarrow> (nat \<times> int) option" where
  "decimal s =
     (let (mant, ex) = cut_at (\<lambda>c. c = CHR ''e'' \<or> c = CHR ''E'') s;
          (ip, fp) = cut_at (\<lambda>c. c = CHR ''.'') mant;
          fr = (case fp of None \<Rightarrow> Some [] | Some t \<Rightarrow> opt_digits t);
          e = (case ex of
                 None \<Rightarrow> Some 0
               | Some t \<Rightarrow> (let (neg, body) = split_sign t
                            in map_option (\<lambda>ds. if neg then - int (nat_of_digits ds)
                                                 else int (nat_of_digits ds)) (digitpart body)))
      in case (opt_digits ip, fr, e) of
           (Some ids, Some fds, Some e') \<Rightarrow>
             if ids = [] \<and> fds = [] then None
             else Some (nat_of_digits (ids @ fds), e' - int (length fds))
         | _ \<Rightarrow> None)"

text \<open>
  Of the value of \<open>float(s)\<close> the program reads only how it compares with zero, so
  the value is modelled by its sign: that of the double nearest to the number written,
  which is zero for a number of magnitude up to and including \<open>2 ^ -1075\<close>, and
  negative zero is zero. An infinity has the sign written; \<open>nan\<close> compares with
  nothing.
\<close>

datatype sign = Negative | Zero | Positive | NotANumber

definition rounds_to_zero :: "nat \<Rightarrow> int \<Rightarrow> bool" where
  "rounds_to_zero m e = (if 0 \<le> e then m = 0 else m * 2 ^ 1075 \<le> 10 ^ nat (- e))"

definition float_sign :: "pyval \<Rightarrow> error + sign" where
  "float_sign x = (case x of
       PStr s \<Rightarrow>
         (let (neg, body) = split_sign (strip s)
          in if lower body = ''inf'' \<or> lower body = ''infinity''
             then Inr (if neg then Negative else Positive)
             else if lower body = ''nan'' then Inr NotANumber
             else (case decimal body of
                     None \<Rightarrow> Inl ValueError
                   | Some (m, e) \<Rightarrow>
                       Inr (if rounds_to_zero m e then Zero
                            else if neg then Negative else Positive)))
     | _ \<Rightarrow> Inl TypeError)"

text \<open>
  \<open>base64.b64decode(x, validate=True)\<close>, which is \<open>binascii.a2b_base64\<close> in its
  strict mode (CPython 3.11). The characters are read from the left; four characters
  of the alphabet make three bytes. The state of the scan is the position in the
  group of four, the bits left over from the character before, the number of padding
  characters counted in the group, and whether a padding character has been met. A
  \<open>=\<close> that completes a group of two or three characters ends the scan, and nothing
  may follow it; any other \<open>=\<close> is passed over. Refused are a character outside the
  alphabet, a \<open>=\<close> in the first place, a character of the alphabet behind a
  \<open>=\<close>, and an incomplete group at the end.
\<close>

definition b64_index :: "char \<Rightarrow> nat option" where
  "b64_index c =
     (let n = (of_char c :: nat)
      in if 65 \<le> n \<and> n \<le> 90 then Some (n - 65)
         else if 97 \<le> n \<and> n \<le> 122 then Some (n - 71)
         else if 48 \<le> n \<and> n \<le> 57 then Some (n + 4)
         else if c = CHR ''+'' then Some 62
         else if c = CHR ''/'' then Some 63
         else None)"

fun a2b_base64 :: "string \<Rightarrow> nat \<Rightarrow> nat \<Rightarrow> nat \<Rightarrow> bool \<Rightarrow> string option" where
  "a2b_base64 [] quad_pos leftchar pads padding_started = (if quad_pos = 0 then Some [] else None)"
| "a2b_base64 (c # cs) quad_pos leftchar pads padding_started =
     (if c = CHR ''='' then
        (if 2 \<le> quad_pos \<and> 4 \<le> quad_pos + (pads + 1)
         then (if cs = [] then Some [] else None)
         else a2b_base64 cs quad_pos leftchar (if 2 \<le> quad_pos then pads + 1 else pads) True)
      else (case b64_index c of
              None \<Rightarrow> None
            | Some v \<Rightarrow>
                if padding_started then None
                else if quad_pos = 0 then a2b_base64 cs 1 v 0 False
                else if quad_pos = 1 then
                  map_option ((#) (char_of (leftchar * 4 + v div 16))) (a2b_base64 cs 2 (v mod 16) 0 False)
                else if quad_pos = 2 then
                  map_option ((#) (char_of (leftchar * 16 + v div 4))) (a2b_base64 cs 3 (v mod 4) 0 False)
                else map_option ((#) (char_of (leftchar * 64 + v))) (a2b_base64 cs 0 0 0 False)))"

definition b64decode :: "pyval \<Rightarrow> error + string" where
  "b64decode x = (case x of
       PStr s \<Rightarrow>
         (if s \<noteq> [] \<and> hd s = CHR ''='' then Inl ValueError
          else (case a2b_base64 s 0 0 0 False of None \<Rightarrow> Inl ValueError | Some bs \<Rightarrow> Inr bs))
     | _ \<Rightarrow> Inl TypeError)"

text \<open>
  \<open>str(x)\<close>: a string is itself, anything else is printed as Python prints it
  (\<open>repr\<close>, a dictionary of the parser being a plain \<open>dict\<close>). A character that
  is not printable is escaped: below 256 these are the control characters \<open>0x00\<close> to
  \<open>0x1F\<close> and \<open>0x7F\<close> to \<open>0x9F\<close>, the no-break space \<open>0xA0\<close> and the soft
  hyphen \<open>0xAD\<close>.
\<close>

definition printable :: "char \<Rightarrow> bool" where
  "printable c =
     (let n = (of_char c :: nat)
      in 32 \<le> n \<and> n < 127 \<or> 161 \<le> n \<and> n \<noteq> 173)"

definition hex_digit :: "nat \<Rightarrow> char" where
  "hex_digit n = ''0123456789abcdef'' ! (n mod 16)"

definition repr_char :: "char \<Rightarrow> char \<Rightarrow> string" where
  "repr_char q c =
     (if c = q \<or> c = BSL then [BSL, c]
      else if c = TAB then [BSL, CHR ''t'']
      else if c = NL then [BSL, CHR ''n'']
      else if c = CHR 0x0D then [BSL, CHR ''r'']
      else if \<not> printable c
        then [BSL, CHR ''x'', hex_digit (of_char c div 16), hex_digit (of_char c)]
      else [c])"

definition repr_str :: "string \<Rightarrow> string" where
  "repr_str s =
     (let q = (if CHR 0x27 \<in> set s \<and> CHR 0x22 \<notin> set s then CHR 0x22 else CHR 0x27)
      in q # concat (map (repr_char q) s) @ [q])"

fun join :: "string \<Rightarrow> string list \<Rightarrow> string" where
  "join sep [] = []"
| "join sep [x] = x"
| "join sep (x # y # ys) = x @ sep @ join sep (y # ys)"

fun py_repr :: "pyval \<Rightarrow> string"
  and py_repr_items :: "pyval list \<Rightarrow> string list"
  and py_repr_pairs :: "(string \<times> pyval) list \<Rightarrow> string list" where
  "py_repr PNone = ''None''"
| "py_repr (PStr s) = repr_str s"
| "py_repr (PList xs) = ''['' @ join '', '' (py_repr_items xs) @ '']''"
| "py_repr (PDict kvs) = ''{'' @ join '', '' (py_repr_pairs kvs) @ ''}''"
| "py_repr_items [] = []"
| "py_repr_items (x # xs) = py_repr x # py_repr_items xs"
| "py_repr_pairs [] = []"
| "py_repr_pairs (kv # kvs) = (repr_str (fst kv) @ '': '' @ py_repr (snd kv)) # py_repr_pairs kvs"

definition py_str :: "pyval \<Rightarrow> string" where
  "py_str x = (case x of PStr s \<Rightarrow> s | _ \<Rightarrow> py_repr x)"

section \<open>The question model\<close>

text \<open>
  The class \<open>Question\<close> and its subclasses. Every object has the fields
  \<open>question\<close> and \<open>files\<close>; a field holding normalized text has the type of what
  \<open>_cleanstring\<close> returns. The fields \<open>answer\<close> and \<open>tolerance\<close> of \<open>TrueFalse\<close> and
  \<open>Numerical\<close> are assigned inside a conditional only: \<open>None\<close> stands for an
  attribute that was never set.
\<close>

type_synonym attachments = "(pyval \<times> string) list"

datatype Question =
    Description pyval attachments
  | Malformed pyval attachments
  | Matching pyval attachments "(pyval \<times> pyval) list"
  | MultiChoice pyval attachments "(pyval \<times> string) list"
  | Essay pyval attachments pyval pyval
  | Cloze pyval attachments "(string \<times> string) list"
  | ShortAnswer pyval attachments "pyval list"
  | TrueFalse pyval attachments "pyval option"
  | Numerical pyval attachments "pyval option" "pyval option"

fun question_of :: "Question \<Rightarrow> pyval" where
  "question_of (Description q fs) = q"
| "question_of (Malformed q fs) = q"
| "question_of (Matching q fs ps) = q"
| "question_of (MultiChoice q fs ps) = q"
| "question_of (Essay q fs g i) = q"
| "question_of (Cloze q fs ps) = q"
| "question_of (ShortAnswer q fs as) = q"
| "question_of (TrueFalse q fs a) = q"
| "question_of (Numerical q fs a t) = q"

fun files_of :: "Question \<Rightarrow> attachments" where
  "files_of (Description q fs) = fs"
| "files_of (Malformed q fs) = fs"
| "files_of (Matching q fs ps) = fs"
| "files_of (MultiChoice q fs ps) = fs"
| "files_of (Essay q fs g i) = fs"
| "files_of (Cloze q fs ps) = fs"
| "files_of (ShortAnswer q fs as) = fs"
| "files_of (TrueFalse q fs a) = fs"
| "files_of (Numerical q fs a t) = fs"

subsection \<open>Construction\<close>

text \<open>
  The loop over the file descriptors in \<open>Question.__init__\<close>: a descriptor encoded
  in base64 is decoded and recorded, and every descriptor is named in the text. The
  state is the text and the attachments; the loop returns the failure, if any, and the
  state reached.
\<close>

fun attach_files :: "pyval list \<Rightarrow> pyval \<times> attachments \<Rightarrow> error option \<times> (pyval \<times> attachments)" where
  "attach_files [] st = (None, st)"
| "attach_files (file # rest) st =
     (case bindE (getitem file ''@encoding'') (\<lambda>enc.
           if enc = PStr ''base64''
           then bindE (getitem file ''@name'') (\<lambda>n.
                bindE (getitem file ''#text'') (\<lambda>t.
                bindE (b64decode t) (\<lambda>bytes. Inr (snd st @ [(n, bytes)]))))
           else Inr (snd st)) of
        Inl e \<Rightarrow> (Some e, st)
      | Inr files' \<Rightarrow>
          (case bindE (getitem file ''@name'') (\<lambda>n.
                bindE (str_add '' [[ linked file '' n) (\<lambda>m.
                py_iadd (fst st) (m @ '' ]]''))) of
             Inl e \<Rightarrow> (Some e, (fst st, files'))
           | Inr q' \<Rightarrow> attach_files rest (q', files')))"

text \<open>
  \<open>Question.__init__\<close>: the text and the attachments, or the failure, together with
  the record as the call leaves it. The record is changed in one case: when the format
  is one that \<open>_cleanstring\<close> does not handle and the text is a list, the text of
  the question is that list itself, and the loop extends it in place.
\<close>

definition Question_run :: "pyval \<Rightarrow> (error + pyval \<times> attachments) \<times> pyval" where
  "Question_run r =
     (case bindE (getitem r ''questiontext'') (\<lambda>qt.
           bindE (getitem qt ''text'') (\<lambda>txt.
           bindE (getitem qt ''@format'') (\<lambda>fmt.
           bindE (cleanstring txt fmt) (\<lambda>q.
           bindE (py_in ''file'' qt) (\<lambda>has_file.
           bindE (if has_file then bindE (getitem qt ''file'') (\<lambda>f. Inr (as_list f)) else Inr [])
             (\<lambda>descriptors. Inr (q, descriptors, returns_input txt fmt \<and> is_list q))))))) of
        Inl e \<Rightarrow> (Inl e, r)
      | Inr (q, descriptors, in_place) \<Rightarrow>
          (case attach_files descriptors (q, []) of
             (err, st) \<Rightarrow>
               (case err of None \<Rightarrow> Inr st | Some e \<Rightarrow> Inl e,
                if in_place then with_text r (fst st) else r)))"

definition Question_init :: "pyval \<Rightarrow> error + pyval \<times> attachments" where
  "Question_init r = fst (Question_run r)"

text \<open>
  The record as the construction of a question leaves it, whether it succeeds or
  fails: no constructor changes the record behind \<open>Question.__init__\<close>, with which
  each of them begins, and none reads the text of the record again.
\<close>

definition record_after :: "pyval \<Rightarrow> pyval" where
  "record_after r = snd (Question_run r)"

definition Description_init :: "pyval \<Rightarrow> error + Question" where
  "Description_init r = bindE (Question_init r) (\<lambda>(q, fs). Inr (Description q fs))"

text \<open>\<open>Malformed.__init__\<close>: the text is \<open>str\<close> of the record; there are no files.\<close>

definition Malformed_init :: "pyval \<Rightarrow> Question" where
  "Malformed_init r = Malformed (PStr (py_str r)) []"

definition Matching_pair :: "pyval \<Rightarrow> error + pyval \<times> pyval" where
  "Matching_pair subquestion =
     bindE (getitem subquestion ''text'') (\<lambda>t.
     bindE (getitem subquestion ''@format'') (\<lambda>fmt.
     bindE (cleanstring t fmt) (\<lambda>a1.
     bindE (getitem subquestion ''answer'') (\<lambda>ans.
     bindE (getitem ans ''text'') (\<lambda>t2.
     bindE (cleanstring t2 fmt) (\<lambda>a2. Inr (a1, a2)))))))"

definition Matching_init :: "pyval \<Rightarrow> error + Question" where
  "Matching_init r =
     bindE (Question_init r) (\<lambda>(q, fs).
     bindE (getitem r ''subquestion'') (\<lambda>subs.
     bindE (py_iter subs) (\<lambda>items.
     bindE (mapE Matching_pair items) (\<lambda>answers. Inr (Matching q fs answers)))))"

text \<open>
  One option of MultiChoice; \<open>float(answer['@fraction']) > 0\<close> holds when the sign
  of the value is \<open>Positive\<close>.
\<close>

definition MultiChoice_option :: "pyval \<Rightarrow> error + pyval \<times> string" where
  "MultiChoice_option answer =
     bindE (getitem answer ''text'') (\<lambda>t.
     bindE (getitem answer ''@format'') (\<lambda>fmt.
     bindE (cleanstring t fmt) (\<lambda>a.
     bindE (getitem answer ''@fraction'') (\<lambda>fr.
     bindE (float_sign fr) (\<lambda>value.
     Inr (a, if value = Positive then ''correct'' else ''incorrect''))))))"

definition MultiChoice_init :: "pyval \<Rightarrow> error + Question" where
  "MultiChoice_init r =
     bindE (Question_init r) (\<lambda>(q, fs).
     bindE (getitem r ''answer'') (\<lambda>ans.
     bindE (py_iter ans) (\<lambda>items.
     bindE (mapE MultiChoice_option items) (\<lambda>answers. Inr (MultiChoice q fs answers)))))"

definition Essay_init :: "pyval \<Rightarrow> error + Question" where
  "Essay_init r =
     bindE (Question_init r) (\<lambda>(q, fs).
     bindE (getitem r ''generalfeedback'') (\<lambda>gf.
     bindE (getitem gf ''text'') (\<lambda>gt.
     bindE (getitem gf ''@format'') (\<lambda>gfmt.
     bindE (cleanstring gt gfmt) (\<lambda>generalfeedback.
     bindE (getitem r ''graderinfo'') (\<lambda>gi.
     bindE (getitem gi ''text'') (\<lambda>it.
     bindE (getitem gi ''@format'') (\<lambda>ifmt.
     bindE (cleanstring it ifmt) (\<lambda>graderinfo.
     Inr (Essay q fs generalfeedback graderinfo))))))))))"

text \<open>\<open>x.replace(old, new)\<close>: a method of strings only.\<close>

definition py_replace :: "pyval \<Rightarrow> string \<Rightarrow> string \<Rightarrow> error + pyval" where
  "py_replace x old new = (case x of PStr s \<Rightarrow> Inr (PStr (replace old new s)) | _ \<Rightarrow> Inl AttributeError)"

definition lbrack :: string where
  "lbrack = ''$$'' @ [BSL] @ ''lbrack$$''"

definition rbrack :: string where
  "rbrack = ''$$'' @ [BSL] @ ''rbrack$$''"

text \<open>The two statements that Cloze and ShortAnswer apply to the text.\<close>

definition escape_brackets :: "pyval \<Rightarrow> error + pyval" where
  "escape_brackets q = bindE (py_replace q ''['' lbrack) (\<lambda>q1. py_replace q1 '']'' rbrack)"

definition variables :: "string list" where
  "variables = [''a'', ''b'', ''c'', ''d'', ''e'', ''f'', ''g'', ''h'', ''i'', ''j'']"

text \<open>\<open>match.split(":")[2].split('=')[1].split('~')[0].split('#')[0]\<close>.\<close>

definition cloze_answer :: "string \<Rightarrow> error + string" where
  "cloze_answer match =
     bindE (nth_item (split_on CHR '':'' match) 2) (\<lambda>p.
     bindE (nth_item (split_on CHR ''='' p) 1) (\<lambda>a.
     bindE (nth_item (split_on CHR ''~'' a) 0) (\<lambda>b.
     nth_item (split_on CHR ''#'' b) 0)))"

text \<open>The loop over the candidates of a Cloze text; the state is the text and the answers.\<close>

fun cloze_loop :: "string list \<Rightarrow> string \<times> (string \<times> string) list \<Rightarrow> error + string \<times> (string \<times> string) list" where
  "cloze_loop [] st = Inr st"
| "cloze_loop (match # rest) st =
     bindE (cloze_answer match) (\<lambda>answer.
     bindE (nth_item variables (length (snd st))) (\<lambda>variable.
     cloze_loop rest
       (replace (''{'' @ match @ ''}'') (''['' @ variable @ '']'') (fst st),
        snd st @ [(variable, answer)])))"

definition Cloze_init :: "pyval \<Rightarrow> error + Question" where
  "Cloze_init r =
     bindE (Question_init r) (\<lambda>(q, fs).
     bindE (escape_brackets q) (\<lambda>q2.
     case q2 of
       PStr s \<Rightarrow> bindE (cloze_loop (re_findall ''{'' ''}'' s) (s, []))
                   (\<lambda>(s', answers). Inr (Cloze (PStr s') fs answers))
     | _ \<Rightarrow> Inl TypeError))"

text \<open>\<open>int(answer['@fraction']) == 100\<close>.\<close>

definition full_credit :: "pyval \<Rightarrow> error + bool" where
  "full_credit answer =
     bindE (getitem answer ''@fraction'') (\<lambda>fr.
     bindE (py_int fr) (\<lambda>n. Inr (n = 100)))"

definition answer_text :: "pyval \<Rightarrow> error + pyval" where
  "answer_text answer =
     bindE (getitem answer ''text'') (\<lambda>t.
     bindE (getitem answer ''@format'') (\<lambda>fmt. cleanstring t fmt))"

definition answer_tolerance :: "pyval \<Rightarrow> error + pyval" where
  "answer_tolerance answer =
     bindE (getitem answer ''tolerance'') (\<lambda>t.
     bindE (getitem answer ''@format'') (\<lambda>fmt. cleanstring t fmt))"

fun ShortAnswer_loop :: "pyval list \<Rightarrow> pyval list \<Rightarrow> error + pyval list" where
  "ShortAnswer_loop [] acc = Inr acc"
| "ShortAnswer_loop (answer # rest) acc =
     bindE (full_credit answer) (\<lambda>full.
     if full then bindE (answer_text answer) (\<lambda>a. ShortAnswer_loop rest (acc @ [a]))
     else ShortAnswer_loop rest acc)"

definition ShortAnswer_init :: "pyval \<Rightarrow> error + Question" where
  "ShortAnswer_init r =
     bindE (Question_init r) (\<lambda>(q, fs).
     bindE (escape_brackets q) (\<lambda>q2.
     bindE (getitem r ''answer'') (\<lambda>ans.
     bindE (ShortAnswer_loop (as_list ans) []) (\<lambda>answers.
     Inr (ShortAnswer q2 fs answers)))))"

fun TrueFalse_loop :: "pyval list \<Rightarrow> pyval option \<Rightarrow> error + pyval option" where
  "TrueFalse_loop [] acc = Inr acc"
| "TrueFalse_loop (answer # rest) acc =
     bindE (full_credit answer) (\<lambda>full.
     if full then bindE (answer_text answer) (\<lambda>a. TrueFalse_loop rest (Some a))
     else TrueFalse_loop rest acc)"

definition TrueFalse_init :: "pyval \<Rightarrow> error + Question" where
  "TrueFalse_init r =
     bindE (Question_init r) (\<lambda>(q, fs).
     bindE (getitem r ''answer'') (\<lambda>ans.
     bindE (TrueFalse_loop (as_list ans) None) (\<lambda>answer.
     Inr (TrueFalse q fs answer))))"

fun Numerical_loop :: "pyval list \<Rightarrow> pyval option \<times> pyval option \<Rightarrow> error + pyval option \<times> pyval option" where
  "Numerical_loop [] acc = Inr acc"
| "Numerical_loop (answer # rest) acc =
     bindE (full_credit answer) (\<lambda>full.
     if full then bindE (answer_text answer) (\<lambda>a.
                  bindE (answer_tolerance answer) (\<lambda>t. Numerical_loop rest (Some a, Some t)))
     else Numerical_loop rest acc)"

definition Numerical_init :: "pyval \<Rightarrow> error + Question" where
  "Numerical_init r =
     bindE (Question_init r) (\<lambda>(q, fs).
     bindE (getitem r ''answer'') (\<lambda>ans.
     bindE (Numerical_loop (as_list ans) (None, None)) (\<lambda>(answer, tolerance).
     Inr (Numerical q fs answer tolerance))))"

subsection \<open>Serialization\<close>

text \<open>The loops \<open>line += "\t" + x + "\t" + y\<close> of Matching and MultiChoice.\<close>

fun pairs_line :: "string \<Rightarrow> (pyval \<times> pyval) list \<Rightarrow> error + string" where
  "pairs_line line [] = Inr line"
| "pairs_line line (p # ps) =
     bindE (str_add [TAB] (fst p)) (\<lambda>l1.
     bindE (str_add (l1 @ [TAB]) (snd p)) (\<lambda>l2.
     pairs_line (line @ l2) ps))"

fun blanks_line :: "string \<Rightarrow> (string \<times> string) list \<Rightarrow> string" where
  "blanks_line line [] = line"
| "blanks_line line (p # ps) = blanks_line (line @ [TAB] @ fst p @ [TAB] @ snd p @ [TAB]) ps"

fun answers_line :: "string \<Rightarrow> pyval list \<Rightarrow> error + string" where
  "answers_line line [] = Inr line"
| "answers_line line (a # as) = bindE (str_add [TAB] a) (\<lambda>l. answers_line (line @ l) as)"

text \<open>A read of an attribute that may never have been assigned.\<close>

definition getattr :: "pyval option \<Rightarrow> error + pyval" where
  "getattr a = (case a of None \<Rightarrow> Inl AttributeError | Some v \<Rightarrow> Inr v)"

text \<open>
  \<open>to_BBultra\<close>. The base class returns the text as it is. In the branch of Cloze
  for at most one blank the name \<open>answer\<close> is read, a local variable that only
  the loop of the other branch assigns: the read raises \<open>UnboundLocalError\<close>, a
  subclass of \<open>NameError\<close>, recorded as such.
\<close>

fun to_BBultra :: "Question \<Rightarrow> error + pyval" where
  "to_BBultra (Description q fs) = Inr q"
| "to_BBultra (Malformed q fs) = Inr q"
| "to_BBultra (Matching q fs answers) =
     bindE (str_add (''MAT'' @ [TAB]) q) (\<lambda>line.
     bindE (pairs_line line answers) (\<lambda>l. Inr (PStr l)))"
| "to_BBultra (MultiChoice q fs answers) =
     bindE (str_add (''MC'' @ [TAB]) q) (\<lambda>line.
     bindE (pairs_line line (map (\<lambda>p. (fst p, PStr (snd p))) answers)) (\<lambda>l. Inr (PStr l)))"
| "to_BBultra (Essay q fs generalfeedback graderinfo) =
     bindE (str_add (''ESS'' @ [TAB]) q) (\<lambda>line.
     bindE (py_len generalfeedback) (\<lambda>n1.
     bindE (if 0 < n1 then bindE (str_add [TAB] generalfeedback) (\<lambda>l. Inr (line @ l))
            else Inr line) (\<lambda>line1.
     bindE (py_len graderinfo) (\<lambda>n2.
     bindE (if 0 < n2 then bindE (str_add [TAB] graderinfo) (\<lambda>l. Inr (line1 @ l))
            else Inr line1) (\<lambda>line2. Inr (PStr line2))))))"
| "to_BBultra (Cloze q fs answers) =
     (if 1 < length answers
      then bindE (str_add (''FIB_PLUS'' @ [TAB]) q) (\<lambda>line. Inr (PStr (blanks_line line answers)))
      else bindE (str_add (''FIB'' @ [TAB]) q) (\<lambda>line. Inl NameError))"
| "to_BBultra (ShortAnswer q fs answers) =
     bindE (str_add (''FIB'' @ [TAB]) q) (\<lambda>line.
     bindE (answers_line (line @ '' [a]'') answers) (\<lambda>l. Inr (PStr l)))"
| "to_BBultra (TrueFalse q fs answer) =
     bindE (str_add (''TF'' @ [TAB]) q) (\<lambda>line.
     bindE (getattr answer) (\<lambda>a.
     bindE (str_add (line @ [TAB]) a) (\<lambda>l. Inr (PStr l))))"
| "to_BBultra (Numerical q fs answer tolerance) =
     bindE (str_add (''NUM'' @ [TAB]) q) (\<lambda>line.
     bindE (getattr answer) (\<lambda>a.
     bindE (str_add (line @ [TAB]) a) (\<lambda>l1.
     bindE (getattr tolerance) (\<lambda>t.
     bindE (str_add (l1 @ [TAB]) t) (\<lambda>l. Inr (PStr l))))))"

section \<open>Writing a category\<close>

text \<open>
  The effect of the program on the file system is the sequence of the files it
  writes, each with its path and its content, in the order of the writes (a later
  write to the same path replaces the file). A function that writes returns the
  failure, if any, together with the writes made up to that moment: files written
  before a failure stay written.

  The program makes the directory \<open>output\<close> and no other, and the directory is taken
  to hold no directory of its own. A file can then be opened for writing when its path
  names an entry of \<open>output\<close> other than \<open>.\<close> and \<open>..\<close>; a path that leads
  through a further directory, as the name of an attachment with a \<open>/\<close> makes it,
  raises \<open>FileNotFoundError\<close>. (The file system is one in which \<open>/\<close> alone
  separates the parts of a path. Limits on the length of a name and on space are not
  modelled, and no string of a record holds the character \<open>0x00\<close>, which the parser
  does not accept.)
\<close>

type_synonym filesystem = "(string \<times> string) list"

definition dirname :: string where
  "dirname = ''output/''"

definition can_open :: "string \<Rightarrow> bool" where
  "can_open path =
     (prefix dirname path \<and> CHR ''/'' \<notin> set (drop (length dirname) path)
      \<and> drop (length dirname) path \<notin> {[], ''.'', ''..''})"

text \<open>\<open>writefiles\<close>: \<open>open(rootname + "_" + file[0], 'wb')\<close>, then the write.\<close>

fun writefiles :: "attachments \<Rightarrow> string \<Rightarrow> filesystem \<Rightarrow> error option \<times> filesystem" where
  "writefiles [] rootname fs = (None, fs)"
| "writefiles (file # rest) rootname fs =
     (case str_add (rootname @ ''_'') (fst file) of
        Inl e \<Rightarrow> (Some e, fs)
      | Inr path \<Rightarrow>
          if can_open path then writefiles rest rootname (fs @ [(path, snd file)])
          else (Some OSError, fs))"

text \<open>The inner loop of \<open>write_questions_to_file\<close>: the text of one file.\<close>

fun write_bucket :: "Question list \<Rightarrow> string \<Rightarrow> string \<Rightarrow> filesystem \<Rightarrow> (error + string) \<times> filesystem" where
  "write_bucket [] rootname output fs = (Inr output, fs)"
| "write_bucket (question # rest) rootname output fs =
     (case to_BBultra question of
        Inl e \<Rightarrow> (Inl e, fs)
      | Inr l \<Rightarrow>
          (case l of
             PStr line \<Rightarrow>
               (case writefiles (files_of question) rootname fs of
                  (Some e, fs') \<Rightarrow> (Inl e, fs')
                | (None, fs') \<Rightarrow> write_bucket rest rootname (output @ line @ [NL]) fs')
           | _ \<Rightarrow> (Inl TypeError, fs)))"

text \<open>
  \<open>write_questions_to_file\<close>: one text file for each type of the category, in the
  order in which the types were first met. The messages on the console are not
  modelled.
\<close>

fun write_questions_to_file ::
  "(string \<times> Question list) list \<Rightarrow> pyval \<Rightarrow> string \<Rightarrow> filesystem \<Rightarrow> error option \<times> filesystem" where
  "write_questions_to_file [] category directory fs = (None, fs)"
| "write_questions_to_file ((qtype, bucket) # rest) category directory fs =
     (case category of
        PStr c \<Rightarrow>
          (let rootname = directory @ replace ''/'' ''_'' c @ ''_'' @ qtype
           in case write_bucket bucket rootname [] fs of
                (Inl e, fs') \<Rightarrow> (Some e, fs')
              | (Inr output, fs') \<Rightarrow>
                  if can_open (rootname @ ''.txt'')
                  then write_questions_to_file rest category directory (fs' @ [(rootname @ ''.txt'', output)])
                  else (Some OSError, fs'))
      | _ \<Rightarrow> (Some AttributeError, fs))"

section \<open>The main loop\<close>

record state =
  questions :: "(string \<times> Question list) list"
  category :: pyval
  files :: filesystem

text \<open>\<open>if not k in questions: questions[k] = []\<close>, then \<open>questions[k].append(q)\<close>.\<close>

definition add_question :: "string \<Rightarrow> Question \<Rightarrow> (string \<times> Question list) list \<Rightarrow> (string \<times> Question list) list" where
  "add_question k q qs =
     (if k \<in> set (map fst qs)
      then map (\<lambda>kb. if fst kb = k then (k, snd kb @ [q]) else kb) qs
      else qs @ [(k, [q])])"

text \<open>
  One branch of the dispatch: construct, then file under the type. With the failure,
  if any, and the state reached comes the record as the branch leaves it.
\<close>

definition file_under :: "string \<Rightarrow> error + Question \<Rightarrow> pyval \<Rightarrow> state \<Rightarrow> error option \<times> state \<times> pyval" where
  "file_under k c r' s =
     (case c of
        Inl e \<Rightarrow> (Some e, s, r')
      | Inr q \<Rightarrow> (None, s\<lparr>questions := add_question k q (questions s)\<rparr>, r'))"

text \<open>The branch of a category marker.\<close>

definition enter_category :: "pyval \<Rightarrow> state \<Rightarrow> error option \<times> state" where
  "enter_category r s =
     (let (err, s1) =
            (if category s \<noteq> PNone
             then (case write_questions_to_file (questions s) (category s) dirname (files s) of
                     (Some e, fs') \<Rightarrow> (Some e, s\<lparr>files := fs'\<rparr>)
                   | (None, fs') \<Rightarrow> (None, s\<lparr>questions := [], files := fs'\<rparr>))
             else (None, s))
      in case err of
           Some e \<Rightarrow> (Some e, s1)
         | None \<Rightarrow>
             (case bindE (getitem r ''category'') (\<lambda>c. getitem c ''text'') of
                Inl e \<Rightarrow> (Some e, s1)
              | Inr t \<Rightarrow>
                  (case t of
                     PStr c \<Rightarrow> (None, s1\<lparr>category := PStr (replace ''$course$/top/'' [] c)\<rparr>)
                   | _ \<Rightarrow> (Some AttributeError, s1\<lparr>category := t\<rparr>))))"

text \<open>
  The body of the \<open>try\<close> statement: the failure, if any, the state reached, and the
  record as the body leaves it.
\<close>

definition try_body :: "pyval \<Rightarrow> state \<Rightarrow> error option \<times> state \<times> pyval" where
  "try_body r s =
     (case getitem r ''@type'' of
        Inl e \<Rightarrow> (Some e, s, r)
      | Inr t \<Rightarrow>
          if t = PStr ''category'' then (case enter_category r s of (err, s') \<Rightarrow> (err, s', r))
          else if t = PStr ''cloze'' then file_under ''cloze'' (Cloze_init r) (record_after r) s
          else if t = PStr ''description'' then file_under ''description'' (Description_init r) (record_after r) s
          else if t = PStr ''essay'' then file_under ''essay'' (Essay_init r) (record_after r) s
          else if t = PStr ''matching'' then file_under ''matching'' (Matching_init r) (record_after r) s
          else if t = PStr ''multichoice'' then file_under ''multichoice'' (MultiChoice_init r) (record_after r) s
          else if t = PStr ''numerical'' then file_under ''numerical'' (Numerical_init r) (record_after r) s
          else if t = PStr ''shortanswer'' then file_under ''shortanswer'' (ShortAnswer_init r) (record_after r) s
          else if t = PStr ''truefalse'' then file_under ''truefalse'' (TrueFalse_init r) (record_after r) s
          else file_under ''*unsupported*'' (Inr (Malformed_init r)) r s)"

text \<open>
  One round of the loop: the body, and the handler \<open>except:\<close> for any failure, which
  makes a Malformed entry of the record as it then is.
\<close>

definition step :: "state \<Rightarrow> pyval \<Rightarrow> state" where
  "step s r =
     (case try_body r s of
        (None, s', r') \<Rightarrow> s'
      | (Some e, s', r') \<Rightarrow>
          s'\<lparr>questions := add_question ''*malformed*'' (Malformed_init r') (questions s')\<rparr>)"

definition main_loop :: "state \<Rightarrow> pyval list \<Rightarrow> state" where
  "main_loop s rs = foldl step s rs"

definition initial :: "filesystem \<Rightarrow> state" where
  "initial fs = \<lparr>questions = [], category = PNone, files = fs\<rparr>"

text \<open>
  \<open>main\<close> from the list of question records on: the loop, then the write of the last
  category, outside the \<open>try\<close> statement. \<open>Some e\<close> is a run that ends with the
  uncaught failure \<open>e\<close>.
\<close>

definition main :: "pyval list \<Rightarrow> filesystem \<Rightarrow> error option \<times> filesystem" where
  "main rs fs =
     (let s = main_loop (initial fs) rs
      in write_questions_to_file (questions s) (category s) dirname (files s))"

section \<open>What the loop is to do with a record\<close>

text \<open>A category marker is a record whose type is \<open>category\<close>.\<close>

definition is_marker :: "pyval \<Rightarrow> bool" where
  "is_marker r = (getitem r ''@type'' = Inr (PStr ''category''))"

text \<open>The name that a well-formed marker gives to its category.\<close>

definition marker_category :: "pyval \<Rightarrow> string option" where
  "marker_category m =
     (if is_marker m
      then (case bindE (getitem m ''category'') (\<lambda>c. getitem c ''text'') of
              Inr t \<Rightarrow> (case t of PStr c \<Rightarrow> Some (replace ''$course$/top/'' [] c) | _ \<Rightarrow> None)
            | Inl e \<Rightarrow> None)
      else None)"

text \<open>The supported types with their constructors.\<close>

definition constructors :: "(string \<times> (pyval \<Rightarrow> error + Question)) list" where
  "constructors =
     [(''cloze'', Cloze_init), (''description'', Description_init), (''essay'', Essay_init),
      (''matching'', Matching_init), (''multichoice'', MultiChoice_init),
      (''numerical'', Numerical_init), (''shortanswer'', ShortAnswer_init),
      (''truefalse'', TrueFalse_init)]"

text \<open>
  The bucket and the entry of a question record, as the specification has them: a
  record of a supported type goes under its type when its construction succeeds and
  as a Malformed entry under \<open>*malformed*\<close> when it fails; a record of any other type
  goes as a Malformed entry under \<open>*unsupported*\<close>. A record whose type cannot
  be read at all counts as a failed construction. A Malformed entry has no files, and
  its text is the record printed: the record as the failed construction leaves it,
  which is the record itself unless its text is a list in a format that is not
  handled.
\<close>

definition bucket_entry :: "pyval \<Rightarrow> string \<times> Question" where
  "bucket_entry r =
     (case getitem r ''@type'' of
        Inl e \<Rightarrow> (''*malformed*'', Malformed (PStr (py_str r)) [])
      | Inr t \<Rightarrow>
          (case t of
             PStr ty \<Rightarrow>
               (case map_of constructors ty of
                  None \<Rightarrow> (''*unsupported*'', Malformed (PStr (py_str r)) [])
                | Some init \<Rightarrow>
                    (case init r of
                       Inl e \<Rightarrow> (''*malformed*'', Malformed (PStr (py_str (record_after r))) [])
                     | Inr q \<Rightarrow> (ty, q)))
           | _ \<Rightarrow> (''*unsupported*'', Malformed (PStr (py_str r)) [])))"

text \<open>The text of a record is a list, in a format that \<open>_cleanstring\<close> does not handle.\<close>

definition list_text :: "pyval \<Rightarrow> bool" where
  "list_text r =
     (case bindE (getitem r ''questiontext'') (\<lambda>qt.
           bindE (getitem qt ''text'') (\<lambda>txt.
           bindE (getitem qt ''@format'') (\<lambda>fmt. Inr (is_list txt \<and> returns_input txt fmt)))) of
        Inr b \<Rightarrow> b
      | Inl e \<Rightarrow> False)"

definition file_entry :: "string \<times> Question \<Rightarrow> state \<Rightarrow> state" where
  "file_entry e s = s\<lparr>questions := add_question (fst e) (snd e) (questions s)\<rparr>"

text \<open>The questions filed under a key: \<open>questions[k]\<close>, empty for a key not present.\<close>

definition bucket_of :: "(string \<times> Question list) list \<Rightarrow> string \<Rightarrow> Question list" where
  "bucket_of qs k = (case map_of qs k of None \<Rightarrow> [] | Some b \<Rightarrow> b)"

text \<open>The buckets that a sequence of question records fills, starting from \<open>qs\<close>.\<close>

definition collect :: "(string \<times> Question list) list \<Rightarrow> pyval list \<Rightarrow> (string \<times> Question list) list" where
  "collect qs rs = foldl (\<lambda>acc r. add_question (fst (bucket_entry r)) (snd (bucket_entry r)) acc) qs rs"

section \<open>Example records\<close>

definition questiontext :: "string \<Rightarrow> string \<Rightarrow> pyval" where
  "questiontext fmt t = PDict [(''@format'', PStr fmt), (''text'', PStr t)]"

definition answer_record :: "string \<Rightarrow> string \<Rightarrow> pyval" where
  "answer_record fraction t =
     PDict [(''@fraction'', PStr fraction), (''@format'', PStr ''moodle_auto_format''),
            (''text'', PStr t), (''tolerance'', PStr ''0'')]"

definition question_record :: "string \<Rightarrow> string \<Rightarrow> pyval list \<Rightarrow> pyval" where
  "question_record ty t answers =
     PDict [(''@type'', PStr ty), (''questiontext'', questiontext ''html'' t),
            (''answer'', PList answers)]"

definition category_record :: "string \<Rightarrow> pyval" where
  "category_record c =
     PDict [(''@type'', PStr ''category''), (''category'', PDict [(''text'', PStr c)])]"

definition example_truefalse :: pyval where
  "example_truefalse =
     question_record ''truefalse'' ''Q1'' [answer_record ''100'' ''true'', answer_record ''0'' ''false'']"

text \<open>A true/false question none of whose answers has the fraction 100.\<close>

definition example_truefalse_no_full :: pyval where
  "example_truefalse_no_full =
     question_record ''truefalse'' ''Q'' [answer_record ''0'' ''true'', answer_record ''0'' ''false'']"

text \<open>An essay without its text, and a question of a type that is not supported.\<close>

definition example_no_text :: pyval where
  "example_no_text = PDict [(''@type'', PStr ''essay'')]"

definition example_unknown_type :: pyval where
  "example_unknown_type = PDict [(''@type'', PStr ''calculated'')]"

definition example_cloze :: pyval where
  "example_cloze = question_record ''cloze'' ''Compute {1:SA:=42#wrong}'' []"

definition example_multichoice :: pyval where
  "example_multichoice =
     question_record ''multichoice'' ''Q''
       [answer_record ''50'' ''x'', answer_record ''0'' ''y'', answer_record ''-25'' ''z'']"

definition example_shortanswer :: pyval where
  "example_shortanswer =
     question_record ''shortanswer'' ''Q''
       [answer_record ''100'' ''u'', answer_record ''99'' ''v'', answer_record ''0'' ''w'',
        answer_record ''101'' ''y'', answer_record ''100'' ''x'']"

text \<open>A numerical question with two answers of full credit, and one of more.\<close>

definition example_numerical :: pyval where
  "example_numerical =
     question_record ''numerical'' ''Q''
       [answer_record ''100'' ''1'', answer_record ''100'' ''2'', answer_record ''101'' ''3'']"

definition file_descriptor :: "string \<Rightarrow> string \<Rightarrow> string \<Rightarrow> pyval" where
  "file_descriptor name encoding payload =
     PDict [(''@name'', PStr name), (''@encoding'', PStr encoding), (''#text'', PStr payload)]"

text \<open>A description whose text carries the file descriptors \<open>fs\<close>.\<close>

definition example_with_files :: "pyval \<Rightarrow> pyval" where
  "example_with_files fs =
     PDict [(''@type'', PStr ''description''),
            (''questiontext'', PDict [(''@format'', PStr ''html''), (''text'', PStr ''Q''), (''file'', fs)])]"


definition example_description :: pyval where
  "example_description =
     example_with_files (PList [file_descriptor ''diagram.png'' ''base64'' ''aGVsbG8=''])"

text \<open>Questions whose text has square brackets and a newline.\<close>

definition example_cloze_brackets :: pyval where
  "example_cloze_brackets =
     question_record ''cloze'' (''Sum [x]'' @ [NL] @ ''{1:SA:=42#wrong}'') []"

definition example_shortanswer_brackets :: pyval where
  "example_shortanswer_brackets =
     question_record ''shortanswer'' (''a[1]'' @ [NL] @ ''?'') [answer_record ''100'' ''u'']"

definition example_multichoice_brackets :: pyval where
  "example_multichoice_brackets = question_record ''multichoice'' ''x[1]'' [answer_record ''50'' ''y'']"

definition example_description_auto :: pyval where
  "example_description_auto =
     PDict [(''@type'', PStr ''description''),
            (''questiontext'', questiontext ''moodle_auto_format'' (''a'' @ [NL] @ ''b''))]"

text \<open>
  A description whose text is a list, in a format that is not handled, with two file
  descriptors, the second of which lacks its encoding.
\<close>

definition example_list_text :: pyval where
  "example_list_text =
     PDict [(''@type'', PStr ''description''),
            (''questiontext'',
               PDict [(''@format'', PStr ''markdown''), (''text'', PList [PStr ''a'']),
                      (''file'', PList [PDict [(''@name'', PStr ''f''), (''@encoding'', PStr ''none'')],
                                        PDict []])])]"

section \<open>Evaluation\<close>

lemmas py_defs = bindE_def getitem_def py_in_def py_iter_def as_list_def str_add_def py_iadd_def
  py_len_def nth_item_def py_replace_def getattr_def

lemmas text_defs = cleanstring_def cleanstring_html_def strip_newlines_def wrap_dollars_def
  auto_dollar_def

lemmas num_defs = float_sign_def rounds_to_zero_def py_int_def split_sign_def strip_def is_space_def lower_def
  decimal_def cut_at_def opt_digits_def is_digit_def nat_of_digits_def digit_val_def

lemmas init_defs = Question_init_def Question_run_def record_after_def returns_input_def
  is_list_def with_text_def with_item_def Description_init_def Malformed_init_def Matching_init_def
  Matching_pair_def MultiChoice_init_def MultiChoice_option_def Essay_init_def Cloze_init_def
  ShortAnswer_init_def TrueFalse_init_def Numerical_init_def escape_brackets_def lbrack_def
  rbrack_def variables_def cloze_answer_def full_credit_def answer_text_def answer_tolerance_def

lemmas str_defs = py_str_def repr_str_def repr_char_def printable_def hex_digit_def Let_def

lemmas record_defs = questiontext_def answer_record_def question_record_def category_record_def
  file_descriptor_def example_with_files_def

section \<open>The construction, step by step\<close>

text \<open>The file descriptors that the text of a question carries, as a list.\<close>

definition descriptors :: "pyval \<Rightarrow> pyval list" where
  "descriptors qt = (case getitem qt ''file'' of Inr f \<Rightarrow> as_list f | Inl e \<Rightarrow> [])"

lemma bindE_Inr_iff: "bindE m f = Inr y \<longleftrightarrow> (\<exists>x. m = Inr x \<and> f x = Inr y)"
  by (cases m) (simp_all add: bindE_def)

lemma getitem_py_in: "getitem d k = Inr v \<Longrightarrow> py_in k d = Inr True"
  by (auto simp: getitem_def py_in_def split: pyval.splits option.splits dest: map_of_SomeD)
   (metis fst_conv image_eqI map_of_SomeD)

lemma getitem_dict: "getitem d k = Inr v \<Longrightarrow> \<exists>kvs. d = PDict kvs"
  by (cases d) (simp_all add: getitem_def)

lemma read_descriptors:
  assumes "getitem qt k = Inr v"
  shows "bindE (py_in ''file'' qt) (\<lambda>has_file.
           bindE (if has_file then bindE (getitem qt ''file'') (\<lambda>f. Inr (as_list f)) else Inr []) g) =
         g (descriptors qt)"
proof -
  from getitem_dict [OF assms] obtain kvs where qt: "qt = PDict kvs" by blast
  show ?thesis
  proof (cases "map_of kvs ''file''")
    case None
    then have "''file'' \<notin> set (map fst kvs)"
      by (simp add: map_of_eq_None_iff)
    with None qt show ?thesis
      by (simp add: py_in_def getitem_def descriptors_def bindE_def)
  next
    case (Some f)
    then have "''file'' \<in> set (map fst kvs)"
      by (metis map_of_eq_None_iff option.distinct(1) set_map)
    with Some qt show ?thesis
      by (simp add: py_in_def getitem_def descriptors_def bindE_def)
  qed
qed

lemma Question_run_eq:
  assumes "getitem r ''questiontext'' = Inr qt" and "getitem qt ''text'' = Inr txt"
    and "getitem qt ''@format'' = Inr fmt" and "cleanstring txt fmt = Inr q"
  shows "Question_run r =
           (case attach_files (descriptors qt) (q, []) of
              (err, st) \<Rightarrow>
                (case err of None \<Rightarrow> Inr st | Some e \<Rightarrow> Inl e,
                 if returns_input txt fmt \<and> is_list q then with_text r (fst st) else r))"
proof -
  have "bindE (getitem r ''questiontext'') (\<lambda>qt.
           bindE (getitem qt ''text'') (\<lambda>txt.
           bindE (getitem qt ''@format'') (\<lambda>fmt.
           bindE (cleanstring txt fmt) (\<lambda>q.
           bindE (py_in ''file'' qt) (\<lambda>has_file.
           bindE (if has_file then bindE (getitem qt ''file'') (\<lambda>f. Inr (as_list f)) else Inr [])
             (\<lambda>descriptors. Inr (q, descriptors, returns_input txt fmt \<and> is_list q))))))) =
        Inr (q, descriptors qt, returns_input txt fmt \<and> is_list q)"
    by (simp add: assms bindE_def [of "Inr x" for x] read_descriptors [OF assms(2)])
  then show ?thesis
    by (simp add: Question_run_def)
qed

lemma Question_run_cases:
  obtains (fail) e where "Question_run r = (Inl e, r)"
  | (run) qt t fmt q where "getitem r ''questiontext'' = Inr qt" and "getitem qt ''text'' = Inr t"
      and "getitem qt ''@format'' = Inr fmt" and "cleanstring t fmt = Inr q"
proof (cases "getitem r ''questiontext''")
  case (Inl e)
  then have "Question_run r = (Inl e, r)" by (simp add: Question_run_def bindE_def)
  then show ?thesis by (rule fail)
next
  case qt: (Inr qt)
  show ?thesis
  proof (cases "getitem qt ''text''")
    case (Inl e)
    with qt have "Question_run r = (Inl e, r)" by (simp add: Question_run_def bindE_def)
    then show ?thesis by (rule fail)
  next
    case t: (Inr t)
    show ?thesis
    proof (cases "getitem qt ''@format''")
      case (Inl e)
      with qt t have "Question_run r = (Inl e, r)" by (simp add: Question_run_def bindE_def)
      then show ?thesis by (rule fail)
    next
      case f: (Inr fmt)
      show ?thesis
      proof (cases "cleanstring t fmt")
        case (Inl e)
        with qt t f have "Question_run r = (Inl e, r)" by (simp add: Question_run_def bindE_def)
        then show ?thesis by (rule fail)
      next
        case (Inr q)
        with qt t f show ?thesis by (rule run)
      qed
    qed
  qed
qed

lemma Question_init_Inr:
  assumes "Question_init r = Inr (q', fs)"
  obtains qt t fmt q where "getitem r ''questiontext'' = Inr qt" and "getitem qt ''text'' = Inr t"
    and "getitem qt ''@format'' = Inr fmt" and "cleanstring t fmt = Inr q"
    and "attach_files (descriptors qt) (q, []) = (None, (q', fs))"
proof (cases r rule: Question_run_cases)
  case (fail e)
  with assms show ?thesis by (simp add: Question_init_def)
next
  case (run qt t fmt q)
  from assms have "attach_files (descriptors qt) (q, []) = (None, (q', fs))"
    by (simp add: Question_init_def Question_run_eq [OF run] split: prod.splits option.splits)
  with run show ?thesis by (rule that)
qed

lemma cleanstring_returns_input: "returns_input t fmt \<Longrightarrow> cleanstring t fmt = Inr t"
  by (simp add: returns_input_def cleanstring_def)

lemma record_after_same: "\<not> list_text r \<Longrightarrow> record_after r = r"
proof (cases r rule: Question_run_cases)
  case (fail e)
  then show ?thesis by (simp add: record_after_def)
next
  case (run qt t fmt q)
  assume n: "\<not> list_text r"
  have "\<not> (returns_input t fmt \<and> is_list q)"
  proof
    assume a: "returns_input t fmt \<and> is_list q"
    with run(4) have "q = t" by (simp add: cleanstring_returns_input)
    with a run(1-3) have "list_text r" by (simp add: list_text_def bindE_def)
    with n show False by simp
  qed
  then show ?thesis
    by (auto simp: record_after_def Question_run_eq [OF run] split: prod.splits)
qed

lemma attach_files_Cons_None:
  assumes "attach_files (d # ds) st = (None, st')"
  obtains enc n q' files' where "getitem d ''@encoding'' = Inr enc"
    and "getitem d ''@name'' = Inr (PStr n)"
    and "files' = snd st \<or> (\<exists>bytes. files' = snd st @ [(PStr n, bytes)])"
    and "py_iadd (fst st) ('' [[ linked file '' @ n @ '' ]]'') = Inr q'"
    and "attach_files ds (q', files') = (None, st')"
proof -
  from assms obtain files' q' where
    a: "bindE (getitem d ''@encoding'') (\<lambda>enc.
           if enc = PStr ''base64''
           then bindE (getitem d ''@name'') (\<lambda>n.
                bindE (getitem d ''#text'') (\<lambda>t.
                bindE (b64decode t) (\<lambda>bytes. Inr (snd st @ [(n, bytes)]))))
           else Inr (snd st)) = Inr files'"
    and b: "bindE (getitem d ''@name'') (\<lambda>n.
                bindE (str_add '' [[ linked file '' n) (\<lambda>m.
                py_iadd (fst st) (m @ '' ]]''))) = Inr q'"
    and c: "attach_files ds (q', files') = (None, st')"
    by (auto split: sum.splits)
  from b obtain nv m where nv: "getitem d ''@name'' = Inr nv"
    and m: "str_add '' [[ linked file '' nv = Inr m" and q': "py_iadd (fst st) (m @ '' ]]'') = Inr q'"
    by (auto simp: bindE_Inr_iff)
  from m obtain n where n: "nv = PStr n" "m = '' [[ linked file '' @ n"
    by (cases nv) (auto simp: str_add_def)
  from a obtain enc where enc: "getitem d ''@encoding'' = Inr enc"
    by (auto simp: bindE_Inr_iff)
  from a enc nv n have "files' = snd st \<or> (\<exists>bytes. files' = snd st @ [(PStr n, bytes)])"
    by (auto simp: bindE_Inr_iff split: if_splits)
  with enc nv n q' c show ?thesis
    by (intro that [of enc n files' q']) simp_all
qed

text \<open>
  What a constructor makes of the outcome of \<open>Question.__init__\<close>: the attachments are
  kept; Cloze and ShortAnswer escape the brackets of the text, and Cloze then puts a
  placeholder for each blank; the other types keep the text.
\<close>

lemma constructed_parts:
  assumes "map_of constructors ty = Some init" and "init r = Inr x"
  shows "\<exists>q fs. Question_init r = Inr (q, fs) \<and> files_of x = fs
           \<and> (if ty = ''shortanswer'' then escape_brackets q = Inr (question_of x)
               else if ty = ''cloze''
               then (\<exists>s s' ans. escape_brackets q = Inr (PStr s)
                       \<and> cloze_loop (re_findall ''{'' ''}'' s) (s, []) = Inr (s', ans)
                       \<and> question_of x = PStr s')
               else question_of x = q)"
proof -
  from assms(1) consider
      (cloze) "ty = ''cloze''" "init = Cloze_init"
    | (description) "ty = ''description''" "init = Description_init"
    | (essay) "ty = ''essay''" "init = Essay_init"
    | (matching) "ty = ''matching''" "init = Matching_init"
    | (multichoice) "ty = ''multichoice''" "init = MultiChoice_init"
    | (numerical) "ty = ''numerical''" "init = Numerical_init"
    | (shortanswer) "ty = ''shortanswer''" "init = ShortAnswer_init"
    | (truefalse) "ty = ''truefalse''" "init = TrueFalse_init"
    by (auto simp: constructors_def split: if_splits)
  then show ?thesis
  proof cases
    case cloze
    with assms(2) obtain q fs q2 where q: "Question_init r = Inr (q, fs)"
      and q2: "escape_brackets q = Inr q2"
      and rest: "(case q2 of
           PStr s \<Rightarrow> bindE (cloze_loop (re_findall ''{'' ''}'' s) (s, []))
                       (\<lambda>(s', answers). Inr (Cloze (PStr s') fs answers))
         | _ \<Rightarrow> Inl TypeError) = Inr x"
      by (auto simp: Cloze_init_def bindE_Inr_iff)
    from rest obtain s where s: "q2 = PStr s" by (cases q2) simp_all
    with rest obtain s' ans where "cloze_loop (re_findall ''{'' ''}'' s) (s, []) = Inr (s', ans)"
      "x = Cloze (PStr s') fs ans"
      by (auto simp: bindE_Inr_iff)
    with q q2 s cloze(1) show ?thesis by auto
  next
    case description
    with assms(2) show ?thesis by (auto simp: Description_init_def bindE_Inr_iff)
  next
    case essay
    with assms(2) show ?thesis by (auto simp: Essay_init_def bindE_Inr_iff)
  next
    case matching
    with assms(2) show ?thesis by (auto simp: Matching_init_def bindE_Inr_iff)
  next
    case multichoice
    with assms(2) show ?thesis by (auto simp: MultiChoice_init_def bindE_Inr_iff)
  next
    case numerical
    with assms(2) show ?thesis by (auto simp: Numerical_init_def bindE_Inr_iff)
  next
    case shortanswer
    with assms(2) show ?thesis by (auto simp: ShortAnswer_init_def bindE_Inr_iff)
  next
    case truefalse
    with assms(2) show ?thesis by (auto simp: TrueFalse_init_def bindE_Inr_iff)
  qed
qed

lemma constructors_fail:
  assumes "Question_init r = Inl e" and "map_of constructors ty = Some init"
  shows "init r = Inl e"
proof -
  from assms(2) have "init \<in> {Cloze_init, Description_init, Essay_init, Matching_init,
      MultiChoice_init, Numerical_init, ShortAnswer_init, TrueFalse_init}"
    by (auto simp: constructors_def split: if_splits)
  with assms(1) show ?thesis
    by (auto simp: Cloze_init_def Description_init_def Essay_init_def Matching_init_def
          MultiChoice_init_def Numerical_init_def ShortAnswer_init_def TrueFalse_init_def bindE_def)
qed

section \<open>The loop, record by record\<close>

lemma try_body_typed:
  assumes "getitem r ''@type'' = Inr (PStr ty)" and "ty \<noteq> ''category''"
  shows "try_body r s =
           (case map_of constructors ty of
              None \<Rightarrow> file_under ''*unsupported*'' (Inr (Malformed_init r)) r s
            | Some init \<Rightarrow> file_under ty (init r) (record_after r) s)"
  using assms by (simp add: try_body_def constructors_def)

lemma step_entry:
  assumes "\<not> is_marker r"
  shows "step s r = file_entry (bucket_entry r) s"
proof (cases "getitem r ''@type''")
  case (Inl e)
  then show ?thesis
    by (simp add: step_def try_body_def bucket_entry_def file_entry_def Malformed_init_def)
next
  case (Inr t)
  show ?thesis
  proof (cases t)
    case (PStr ty)
    with Inr assms have ne: "ty \<noteq> ''category''" by (simp add: is_marker_def)
    from Inr PStr have ty: "getitem r ''@type'' = Inr (PStr ty)" by simp
    show ?thesis
    proof (cases "map_of constructors ty")
      case None
      with ty show ?thesis
        by (simp add: step_def try_body_typed [OF ty ne] bucket_entry_def file_entry_def file_under_def
              Malformed_init_def)
    next
      case (Some init)
      with ty show ?thesis
        by (cases "init r")
          (simp_all add: step_def try_body_typed [OF ty ne] bucket_entry_def file_entry_def file_under_def
             Malformed_init_def)
    qed
  qed (use Inr in \<open>simp_all add: step_def try_body_def bucket_entry_def file_entry_def file_under_def
         Malformed_init_def\<close>)
qed

lemma main_loop_append: "main_loop s (xs @ ys) = main_loop (main_loop s xs) ys"
  by (simp add: main_loop_def)

lemma main_loop_Cons: "main_loop s (r # rs) = main_loop (step s r) rs"
  by (simp add: main_loop_def)

lemma main_loop_Nil: "main_loop s [] = s"
  by (simp add: main_loop_def)

lemma main_loop_collect:
  "list_all (\<lambda>r. \<not> is_marker r) rs \<Longrightarrow>
   main_loop s rs = s\<lparr>questions := collect (questions s) rs\<rparr>"
proof (induction rs arbitrary: s)
  case Nil
  show ?case by (simp add: main_loop_def collect_def)
next
  case (Cons r rs)
  from Cons.prems have r: "\<not> is_marker r" and rs: "list_all (\<lambda>r. \<not> is_marker r) rs"
    by simp_all
  have "main_loop s (r # rs) = main_loop (file_entry (bucket_entry r) s) rs"
    by (simp add: main_loop_Cons step_entry [OF r])
  also have "\<dots> = (file_entry (bucket_entry r) s)
      \<lparr>questions := collect (questions (file_entry (bucket_entry r) s)) rs\<rparr>"
    by (rule Cons.IH [OF rs])
  also have "\<dots> = s\<lparr>questions := collect (questions s) (r # rs)\<rparr>"
    by (simp add: file_entry_def collect_def)
  finally show ?case .
qed

lemma bucket_of_add_question:
  "bucket_of (add_question k q qs) k' = bucket_of qs k' @ (if k' = k then [q] else [])"
proof (cases "k \<in> set (map fst qs)")
  case False
  then have "map_of qs k = None" by (simp add: map_of_eq_None_iff)
  with False show ?thesis
    by (auto simp: add_question_def bucket_of_def map_add_def split: option.splits)
next
  case True
  have "map_of (map (\<lambda>kb. if fst kb = k then (k, snd kb @ [q]) else kb) qs) k' =
          (case map_of qs k' of None \<Rightarrow> None | Some b \<Rightarrow> Some (if k' = k then b @ [q] else b))"
    by (induction qs) auto
  moreover from True obtain b where "map_of qs k = Some b"
    by (cases "map_of qs k") (auto simp: map_of_eq_None_iff)
  ultimately show ?thesis using True
    by (auto simp: add_question_def bucket_of_def split: option.splits)
qed

lemma bucket_of_collect:
  "bucket_of (collect qs rs) k =
     bucket_of qs k @ map snd (filter (\<lambda>e. fst e = k) (map bucket_entry rs))"
proof (induction rs arbitrary: qs)
  case Nil
  show ?case by (simp add: collect_def)
next
  case (Cons r rs)
  have "collect qs (r # rs) = collect (add_question (fst (bucket_entry r)) (snd (bucket_entry r)) qs) rs"
    by (simp add: collect_def)
  then show ?case
    by (simp add: Cons.IH bucket_of_add_question)
qed

lemma add_question_not_Nil: "add_question k q qs \<noteq> []"
  by (cases qs) (auto simp: add_question_def)

lemma collect_not_Nil: "rs \<noteq> [] \<or> qs \<noteq> [] \<Longrightarrow> collect qs rs \<noteq> []"
proof (induction rs arbitrary: qs)
  case Nil
  then show ?case by (simp add: collect_def)
next
  case (Cons r rs)
  have "collect qs (r # rs) = collect (add_question (fst (bucket_entry r)) (snd (bucket_entry r)) qs) rs"
    by (simp add: collect_def)
  with Cons.IH [of "add_question (fst (bucket_entry r)) (snd (bucket_entry r)) qs"]
  show ?case by (simp add: add_question_not_Nil)
qed

lemma step_first_marker:
  assumes "marker_category m = Some c" and "category s = PNone"
  shows "step s m = s\<lparr>category := PStr c\<rparr>"
proof -
  from assms(1) have ty: "getitem m ''@type'' = Inr (PStr ''category'')"
    by (simp add: marker_category_def is_marker_def split: if_splits)
  from assms(1) obtain t where
    "bindE (getitem m ''category'') (\<lambda>c. getitem c ''text'') = Inr (PStr t)"
    "c = replace ''$course$/top/'' [] t"
    by (auto simp: marker_category_def split: if_splits sum.splits pyval.splits)
  with ty assms(2) show ?thesis
    by (simp add: step_def try_body_def enter_category_def)
qed


lemma write_no_category:
  "qs \<noteq> [] \<Longrightarrow> write_questions_to_file qs PNone d fs = (Some AttributeError, fs)"
  by (cases qs) auto

lemma bucket_entry_example_truefalse:
  "bucket_entry example_truefalse = (''truefalse'', TrueFalse (PStr ''Q1'') [] (Some (PStr ''true'')))"
  by (simp add: example_truefalse_def bucket_entry_def constructors_def record_defs init_defs
        py_defs text_defs num_defs)

lemma bucket_entry_example_no_text:
  "bucket_entry example_no_text = (''*malformed*'', Malformed (PStr ''{'@type': 'essay'}'') [])"
  by (simp add: example_no_text_def bucket_entry_def constructors_def init_defs py_defs str_defs)

lemma bucket_entry_example_unknown_type:
  "bucket_entry example_unknown_type =
     (''*unsupported*'', Malformed (PStr ''{'@type': 'calculated'}'') [])"
  by (simp add: example_unknown_type_def bucket_entry_def constructors_def py_defs str_defs)

lemma record_after_example_list_text:
  "record_after example_list_text =
     PDict [(''@type'', PStr ''description''),
            (''questiontext'',
               PDict [(''@format'', PStr ''markdown''),
                      (''text'', PList (PStr ''a'' # map (\<lambda>c. PStr [c]) '' [[ linked file f ]]'')),
                      (''file'', PList [PDict [(''@name'', PStr ''f''), (''@encoding'', PStr ''none'')],
                                        PDict []])])]"
  by (simp add: example_list_text_def init_defs py_defs cleanstring_def)

lemma bucket_entry_example_list_text:
  "bucket_entry example_list_text =
     (''*malformed*'',
      Malformed (PStr (''{'@type': 'description', 'questiontext': {'@format': 'markdown', '' @
        [CHR 0x27] @ ''text': ['a', ' ', '[', '[', ' ', 'l', 'i', 'n', 'k', 'e', 'd', ' ', 'f', 'i', '' @
        [CHR 0x27] @ ''l', 'e', ' ', 'f', ' ', ']', ']'], 'file': [{'@name': 'f', '@encoding': 'none'}, {}]}}''))
        [])"
proof -
  have "Description_init example_list_text = Inl KeyError"
    by (simp add: example_list_text_def init_defs py_defs cleanstring_def)
  moreover have "getitem example_list_text ''@type'' = Inr (PStr ''description'')"
    by (simp add: example_list_text_def py_defs)
  ultimately show ?thesis
    by (simp add: bucket_entry_def constructors_def record_after_example_list_text str_defs)
qed

lemma examples_not_markers:
  "\<not> is_marker example_truefalse" "\<not> is_marker example_no_text"
  "\<not> is_marker example_unknown_type" "\<not> is_marker example_truefalse_no_full"
  "\<not> is_marker example_cloze" "\<not> is_marker example_list_text"
  by (simp_all add: is_marker_def example_truefalse_def example_no_text_def
        example_unknown_type_def example_truefalse_no_full_def example_cloze_def
        example_list_text_def record_defs py_defs)

lemma marker_category_record:
  "marker_category (category_record c) = Some (replace ''$course$/top/'' [] c)"
  by (simp add: marker_category_def is_marker_def category_record_def py_defs)

section \<open>Failure isolation in the loop\<close>

text \<open>
  Claim C6. A question record never aborts the loop, whatever its construction does:
  wherever it stands in the input (\<open>pre\<close> and \<open>post\<close> are arbitrary, category markers
  included), the loop reaches it, files its entry, changing nothing else, and goes on
  with the records behind it. The entry of a record of a supported type is the
  question under its type when the construction succeeds, and under \<open>*malformed*\<close> a
  Malformed record without files, whose text is the record printed, when it fails; the
  entry of a record of another type is that Malformed record under \<open>*unsupported*\<close>.
  The record printed after a failure is the record as the construction leaves it,
  which is the input record itself unless its text is a list in a format that is not
  handled. Over a run of question records \<open>rs\<close>, every bucket grows by exactly the
  entries of \<open>rs\<close> that belong under its key, in their order, so the records before
  and behind a failing one are in the buckets of their types.
\<close>

theorem orchestrator_isolation:
  assumes "\<not> is_marker r" and "list_all (\<lambda>x. \<not> is_marker x) rs"
  shows "main_loop s (pre @ r # post) = main_loop (file_entry (bucket_entry r) (main_loop s pre)) post
       \<and> (getitem r ''@type'' = Inr (PStr ty) \<and> map_of constructors ty = Some init \<longrightarrow>
            bucket_entry r =
              (case init r of
                 Inr q \<Rightarrow> (ty, q)
               | Inl e \<Rightarrow> (''*malformed*'', Malformed (PStr (py_str (record_after r))) [])))
       \<and> (getitem r ''@type'' = Inr (PStr ty) \<and> map_of constructors ty = None \<longrightarrow>
            bucket_entry r = (''*unsupported*'', Malformed (PStr (py_str r)) []))
       \<and> (\<not> list_text r \<longrightarrow> record_after r = r)
       \<and> bucket_of (questions (file_entry (bucket_entry r) s)) k =
           bucket_of (questions s) k @ (if k = fst (bucket_entry r) then [snd (bucket_entry r)] else [])
       \<and> bucket_of (questions (main_loop s rs)) k =
           bucket_of (questions s) k @ map snd (filter (\<lambda>e. fst e = k) (map bucket_entry rs))
       \<and> category (main_loop s rs) = category s
       \<and> files (main_loop s rs) = files s"
proof -
  have "main_loop s (pre @ r # post) = main_loop (step (main_loop s pre) r) post"
    by (simp add: main_loop_append main_loop_Cons)
  then have 1: "main_loop s (pre @ r # post) =
      main_loop (file_entry (bucket_entry r) (main_loop s pre)) post"
    by (simp add: step_entry [OF assms(1)])
  have 2: "bucket_of (questions (file_entry (bucket_entry r) s)) k =
      bucket_of (questions s) k @ (if k = fst (bucket_entry r) then [snd (bucket_entry r)] else [])"
    by (simp add: file_entry_def bucket_of_add_question)
  have 3: "main_loop s rs = s\<lparr>questions := collect (questions s) rs\<rparr>"
    by (rule main_loop_collect [OF assms(2)])
  have 4: "getitem r ''@type'' = Inr (PStr ty) \<and> map_of constructors ty = Some init \<longrightarrow>
      bucket_entry r =
        (case init r of
           Inr q \<Rightarrow> (ty, q)
         | Inl e \<Rightarrow> (''*malformed*'', Malformed (PStr (py_str (record_after r))) []))"
    by (simp add: bucket_entry_def split: sum.splits)
  have 5: "getitem r ''@type'' = Inr (PStr ty) \<and> map_of constructors ty = None \<longrightarrow>
      bucket_entry r = (''*unsupported*'', Malformed (PStr (py_str r)) [])"
    by (simp add: bucket_entry_def)
  have 6: "\<not> list_text r \<longrightarrow> record_after r = r"
    by (simp add: record_after_same)
  from 1 2 4 5 6 show ?thesis
    by (simp add: 3 bucket_of_collect)
qed

theorem orchestrator_isolation_witness:
  "\<not> is_marker example_no_text
   \<and> list_all (\<lambda>x. \<not> is_marker x)
       [example_truefalse, example_no_text, example_unknown_type, example_list_text]
   \<and> getitem example_no_text ''@type'' = Inr (PStr ''essay'')
   \<and> map_of constructors ''essay'' = Some Essay_init
   \<and> Essay_init example_no_text = Inl KeyError
   \<and> \<not> list_text example_no_text
   \<and> bucket_entry example_no_text = (''*malformed*'', Malformed (PStr ''{'@type': 'essay'}'') [])
   \<and> bucket_of (questions (main_loop (initial [])
         [example_truefalse, example_no_text, example_unknown_type, example_list_text])) ''truefalse'' =
       [TrueFalse (PStr ''Q1'') [] (Some (PStr ''true''))]
   \<and> bucket_of (questions (main_loop (initial [])
         [example_truefalse, example_no_text, example_unknown_type, example_list_text])) ''*malformed*'' =
       [Malformed (PStr ''{'@type': 'essay'}'') [],
        Malformed (PStr (''{'@type': 'description', 'questiontext': {'@format': 'markdown', '' @
          [CHR 0x27] @ ''text': ['a', ' ', '[', '[', ' ', 'l', 'i', 'n', 'k', 'e', 'd', ' ', 'f', 'i', '' @
          [CHR 0x27] @ ''l', 'e', ' ', 'f', ' ', ']', ']'], 'file': [{'@name': 'f', '@encoding': 'none'}, {}]}}''))
          []]
   \<and> bucket_of (questions (main_loop (initial [])
         [example_truefalse, example_no_text, example_unknown_type, example_list_text])) ''*unsupported*'' =
       [Malformed (PStr ''{'@type': 'calculated'}'') []]"
proof -
  let ?rs = "[example_truefalse, example_no_text, example_unknown_type, example_list_text]"
  have m: "\<not> is_marker example_no_text" and l: "list_all (\<lambda>x. \<not> is_marker x) ?rs"
    by (simp_all add: examples_not_markers)
  have ty: "getitem example_no_text ''@type'' = Inr (PStr ''essay'')"
    and k: "map_of constructors ''essay'' = Some Essay_init"
    and e: "Essay_init example_no_text = Inl KeyError"
    and n: "\<not> list_text example_no_text"
    by (simp_all add: example_no_text_def constructors_def init_defs list_text_def py_defs)
  note t = orchestrator_isolation [OF m l]
  from t [of _ _ _ "''essay''" Essay_init] ty k e n
  have "bucket_entry example_no_text =
      (''*malformed*'', Malformed (PStr (py_str example_no_text)) [])"
    by simp
  then have 1: "bucket_entry example_no_text =
      (''*malformed*'', Malformed (PStr ''{'@type': 'essay'}'') [])"
    by (simp add: example_no_text_def str_defs)
  have "bucket_of (questions (main_loop (initial []) ?rs)) k =
      bucket_of (questions (initial [])) k @
      map snd (filter (\<lambda>e. fst e = k) (map bucket_entry ?rs))" for k
    by (rule conjunct1 [OF conjunct2 [OF conjunct2 [OF conjunct2 [OF conjunct2 [OF conjunct2 [OF t]]]]]])
  then have "bucket_of (questions (main_loop (initial []) ?rs)) k =
      map snd (filter (\<lambda>e. fst e = k)
        [(''truefalse'', TrueFalse (PStr ''Q1'') [] (Some (PStr ''true''))),
         (''*malformed*'', Malformed (PStr ''{'@type': 'essay'}'') []),
         (''*unsupported*'', Malformed (PStr ''{'@type': 'calculated'}'') []),
         bucket_entry example_list_text])" for k
    by (simp add: bucket_entry_example_truefalse 1 bucket_entry_example_unknown_type
          initial_def bucket_of_def)
  with m l ty k e n 1 show ?thesis
    by (simp add: bucket_entry_example_list_text)
qed

section \<open>Questions outside a category\<close>

lemma main_without_marker:
  assumes "list_all (\<lambda>x. \<not> is_marker x) rs" and "rs \<noteq> []"
  shows "main rs fs = (Some AttributeError, fs)"
proof -
  have "main_loop (initial fs) rs = \<lparr>questions = collect [] rs, category = PNone, files = fs\<rparr>"
    by (simp add: main_loop_collect [OF assms(1)] initial_def)
  moreover from assms(2) have "collect [] rs \<noteq> []"
    by (simp add: collect_not_Nil)
  ultimately show ?thesis
    by (simp add: main_def write_no_category)
qed

lemma main_loop_first_marker:
  assumes "list_all (\<lambda>x. \<not> is_marker x) rs" and "marker_category m = Some c"
    and "list_all (\<lambda>x. \<not> is_marker x) rs2"
  shows "main_loop (initial fs) (rs @ m # rs2) =
           \<lparr>questions = collect [] (rs @ rs2), category = PStr c, files = fs\<rparr>"
proof -
  have loop: "main_loop (initial fs) rs = \<lparr>questions = collect [] rs, category = PNone, files = fs\<rparr>"
    by (simp add: main_loop_collect [OF assms(1)] initial_def)
  have "main_loop (initial fs) (rs @ [m]) =
      \<lparr>questions = collect [] rs, category = PStr c, files = fs\<rparr>"
    by (simp add: main_loop_append main_loop_Cons main_loop_Nil loop
          step_first_marker [OF assms(2)])
  moreover have "main_loop (initial fs) (rs @ m # rs2) =
      main_loop (main_loop (initial fs) (rs @ [m])) rs2"
    by (simp add: main_loop_def)
  moreover have "collect (collect [] rs) rs2 = collect [] (rs @ rs2)"
    by (simp add: collect_def)
  ultimately show ?thesis
    by (simp add: main_loop_collect [OF assms(3)])
qed

lemma bucket_entry_example_cloze:
  "bucket_entry example_cloze = (''cloze'', Cloze (PStr ''Compute [a]'') [] [(''a'', ''42'')])"
  by (simp add: bucket_entry_def constructors_def example_cloze_def record_defs init_defs py_defs
        text_defs)

text \<open>
  Claim C10, at a Cloze question with one blank that stands before the first category
  marker: the marker neither writes nor clears it, so that it is carried into the
  bucket of the category \<open>A\<close>, and the final write of that category fails on it
  with the \<open>NameError\<close> of claim C2 before any file is written. The question
  appears in no output file.
\<close>

theorem carried_question_is_not_written:
  "main_loop (initial []) [example_cloze, category_record ''A''] =
     \<lparr>questions = [(''cloze'', [Cloze (PStr ''Compute [a]'') [] [(''a'', ''42'')]])],
      category = PStr ''A'', files = []\<rparr>
   \<and> main [example_cloze, category_record ''A''] [] = (Some NameError, [])"
proof -
  have m: "marker_category (category_record ''A'') = Some ''A''"
    by (simp add: marker_category_record)
  have l: "list_all (\<lambda>x. \<not> is_marker x) [example_cloze]" "list_all (\<lambda>x. \<not> is_marker x) []"
    by (simp_all add: examples_not_markers)
  from main_loop_first_marker [OF l(1) m l(2), of "[]"]
  have 1: "main_loop (initial []) [example_cloze, category_record ''A''] =
      \<lparr>questions = [(''cloze'', [Cloze (PStr ''Compute [a]'') [] [(''a'', ''42'')]])],
       category = PStr ''A'', files = []\<rparr>"
    by (simp add: collect_def bucket_entry_example_cloze add_question_def)
  then have "main [example_cloze, category_record ''A''] [] = (Some NameError, [])"
    by (simp add: main_def py_defs)
  with 1 show ?thesis by simp
qed

section \<open>Failures that surface at the write\<close>

lemma main_marker_then_question:
  assumes "marker_category m = Some c" and "\<not> is_marker r"
  shows "main [m, r] fs =
     write_questions_to_file [(fst (bucket_entry r), [snd (bucket_entry r)])] (PStr c) dirname fs"
proof -
  have "main_loop (initial fs) [m, r] = step (step (initial fs) m) r"
    by (simp add: main_loop_def)
  also have "step (initial fs) m = \<lparr>questions = [], category = PStr c, files = fs\<rparr>"
    by (simp add: step_first_marker [OF assms(1)] initial_def)
  finally show ?thesis
    by (simp add: main_def step_entry [OF assms(2)] file_entry_def add_question_def)
qed

text \<open>
  Claim C1, at a true/false question none of whose answers has the fraction 100: the
  construction succeeds, leaving the attribute \<open>answer\<close> unset, the question is filed
  under \<open>truefalse\<close> and not as a Malformed entry, and the run ends at the final write
  with the uncaught \<open>AttributeError\<close> of the read of \<open>self.answer\<close>.
\<close>

theorem truefalse_without_full_credit_crashes:
  "TrueFalse_init example_truefalse_no_full = Inr (TrueFalse (PStr ''Q'') [] None)
   \<and> bucket_entry example_truefalse_no_full = (''truefalse'', TrueFalse (PStr ''Q'') [] None)
   \<and> main [category_record ''A'', example_truefalse_no_full] [] = (Some AttributeError, [])"
proof -
  have 1: "TrueFalse_init example_truefalse_no_full = Inr (TrueFalse (PStr ''Q'') [] None)"
    by (simp add: example_truefalse_no_full_def record_defs init_defs py_defs text_defs num_defs)
  have "getitem example_truefalse_no_full ''@type'' = Inr (PStr ''truefalse'')"
    by (simp add: example_truefalse_no_full_def record_defs py_defs)
  then have 2: "bucket_entry example_truefalse_no_full =
      (''truefalse'', TrueFalse (PStr ''Q'') [] None)"
    by (simp add: bucket_entry_def constructors_def 1)
  have "main [category_record ''A'', example_truefalse_no_full] [] = (Some AttributeError, [])"
    by (simp add: main_marker_then_question [OF marker_category_record examples_not_markers(4)]
          2 py_defs)
  with 1 2 show ?thesis by simp
qed

text \<open>
  Claim C2, at the Cloze question \<open>Compute {1:SA:=42#wrong}\<close>: the construction finds
  one blank, and the serialization raises \<open>NameError\<close> where the line \<open>FIB\<close> was to
  be returned; a run with this question ends with that failure.
\<close>

theorem cloze_one_blank_raises:
  "Cloze_init example_cloze = Inr (Cloze (PStr ''Compute [a]'') [] [(''a'', ''42'')])
   \<and> to_BBultra (Cloze (PStr ''Compute [a]'') [] [(''a'', ''42'')]) = Inl NameError
   \<and> main [category_record ''A'', example_cloze] [] = (Some NameError, [])"
proof -
  have 1: "Cloze_init example_cloze = Inr (Cloze (PStr ''Compute [a]'') [] [(''a'', ''42'')])"
    by (simp add: example_cloze_def record_defs init_defs py_defs text_defs)
  have "getitem example_cloze ''@type'' = Inr (PStr ''cloze'')"
    by (simp add: example_cloze_def record_defs py_defs)
  then have 2: "bucket_entry example_cloze = (''cloze'', Cloze (PStr ''Compute [a]'') [] [(''a'', ''42'')])"
    by (simp add: bucket_entry_def constructors_def 1)
  have 3: "to_BBultra (Cloze (PStr ''Compute [a]'') [] [(''a'', ''42'')]) = Inl NameError"
    by (simp add: py_defs)
  have "main [category_record ''A'', example_cloze] [] = (Some NameError, [])"
    by (simp add: main_marker_then_question [OF marker_category_record examples_not_markers(5)]
          2 py_defs)
  with 1 3 show ?thesis by simp
qed

section \<open>Delimiters\<close>

text \<open>
  Claim C4, at the text \<open>$$x$$\<close> in the format html: each pair \<open>$$\<close> is itself a
  match of the pattern for single dollars, with an empty group, and is doubled.
\<close>

theorem double_dollar_is_rematched:
  "cleanstring (PStr ''$$x$$'') (PStr ''html'') = Inr (PStr ''$$$$x$$$$'')"
  by (simp add: text_defs)

section \<open>The selection of answers\<close>

text \<open>
  The fraction of an answer as the two constructors read it: as an integer, and as a
  number of which the sign matters.
\<close>

definition fraction_int :: "pyval \<Rightarrow> error + int" where
  "fraction_int a = bindE (getitem a ''@fraction'') py_int"

definition fraction_sign :: "pyval \<Rightarrow> error + sign" where
  "fraction_sign a = bindE (getitem a ''@fraction'') float_sign"

text \<open>An answer has full credit when its fraction reads as the integer 100.\<close>

definition is_full :: "pyval \<Rightarrow> bool" where
  "is_full a = (fraction_int a = Inr 100)"

lemma full_credit_is_full: "full_credit a = Inr full \<Longrightarrow> full = is_full a"
  by (auto simp: full_credit_def is_full_def fraction_int_def bindE_Inr_iff)

lemma ShortAnswer_loop_Inr:
  "ShortAnswer_loop xs acc = Inr res \<Longrightarrow>
   bindE (mapE answer_text (filter is_full xs)) (\<lambda>ys. Inr (acc @ ys)) = Inr res"
proof (induction xs arbitrary: acc)
  case Nil
  then show ?case by (simp add: bindE_def)
next
  case (Cons a xs)
  from Cons.prems obtain full where f: "full_credit a = Inr full"
    and rest: "(if full then bindE (answer_text a) (\<lambda>t. ShortAnswer_loop xs (acc @ [t]))
                else ShortAnswer_loop xs acc) = Inr res"
    by (auto simp: bindE_Inr_iff)
  note full = full_credit_is_full [OF f]
  show ?case
  proof (cases full)
    case True
    with rest obtain t where t: "answer_text a = Inr t" and "ShortAnswer_loop xs (acc @ [t]) = Inr res"
      by (auto simp: bindE_Inr_iff)
    from Cons.IH [OF this(2)] t full True show ?thesis
      by (auto simp: bindE_Inr_iff)
  next
    case False
    with rest have "ShortAnswer_loop xs acc = Inr res" by simp
    from Cons.IH [OF this] full False show ?thesis
      by simp
  qed
qed

text \<open>The last answer of full credit, if there is one.\<close>

definition last_full :: "pyval list \<Rightarrow> pyval option" where
  "last_full xs = (case filter is_full xs of [] \<Rightarrow> None | y # ys \<Rightarrow> Some (last (y # ys)))"

lemma last_full_Cons:
  "last_full (a # xs) = (case last_full xs of Some b \<Rightarrow> Some b | None \<Rightarrow> if is_full a then Some a else None)"
  by (auto simp: last_full_def split: list.splits)

lemma TrueFalse_loop_Inr:
  "TrueFalse_loop xs acc = Inr res \<Longrightarrow>
   (case last_full xs of None \<Rightarrow> res = acc | Some a \<Rightarrow> answer_text a = Inr (the res) \<and> res \<noteq> None)"
proof (induction xs arbitrary: acc)
  case Nil
  then show ?case by (simp add: last_full_def)
next
  case (Cons a xs)
  from Cons.prems obtain full where f: "full_credit a = Inr full"
    and rest: "(if full then bindE (answer_text a) (\<lambda>t. TrueFalse_loop xs (Some t))
                else TrueFalse_loop xs acc) = Inr res"
    by (auto simp: bindE_Inr_iff)
  note full = full_credit_is_full [OF f]
  show ?case
  proof (cases full)
    case True
    with rest obtain t where t: "answer_text a = Inr t" and "TrueFalse_loop xs (Some t) = Inr res"
      by (auto simp: bindE_Inr_iff)
    from Cons.IH [OF this(2)] t full True show ?thesis
      by (auto simp: last_full_Cons split: option.splits)
  next
    case False
    with rest have "TrueFalse_loop xs acc = Inr res" by simp
    from Cons.IH [OF this] full False show ?thesis
      by (auto simp: last_full_Cons split: option.splits)
  qed
qed

lemma Numerical_loop_Inr:
  "Numerical_loop xs acc = Inr res \<Longrightarrow>
   (case last_full xs of None \<Rightarrow> res = acc
    | Some a \<Rightarrow> answer_text a = Inr (the (fst res)) \<and> answer_tolerance a = Inr (the (snd res))
        \<and> fst res \<noteq> None \<and> snd res \<noteq> None)"
proof (induction xs arbitrary: acc)
  case Nil
  then show ?case by (simp add: last_full_def)
next
  case (Cons a xs)
  from Cons.prems obtain full where f: "full_credit a = Inr full"
    and rest: "(if full then bindE (answer_text a) (\<lambda>t.
                  bindE (answer_tolerance a) (\<lambda>u. Numerical_loop xs (Some t, Some u)))
                else Numerical_loop xs acc) = Inr res"
    by (auto simp: bindE_Inr_iff)
  note full = full_credit_is_full [OF f]
  show ?case
  proof (cases full)
    case True
    with rest obtain t u where t: "answer_text a = Inr t" "answer_tolerance a = Inr u"
      and "Numerical_loop xs (Some t, Some u) = Inr res"
      by (auto simp: bindE_Inr_iff)
    from Cons.IH [OF this(3)] t full True show ?thesis
      by (auto simp: last_full_Cons split: option.splits)
  next
    case False
    with rest have "Numerical_loop xs acc = Inr res" by simp
    from Cons.IH [OF this] full False show ?thesis
      by (auto simp: last_full_Cons split: option.splits)
  qed
qed

text \<open>
  The option that MultiChoice is to make of an answer: its normalized text, tagged
  \<open>correct\<close> when the fraction of the answer reads as a number greater than zero and
  \<open>incorrect\<close> when it reads as any other number.
\<close>

definition option_of :: "pyval \<Rightarrow> pyval \<times> string \<Rightarrow> bool" where
  "option_of a opt =
     (answer_text a = Inr (fst opt) \<and>
      (case fraction_sign a of
         Inr v \<Rightarrow> snd opt = (if v = Positive then ''correct'' else ''incorrect'')
       | Inl e \<Rightarrow> False))"

lemma MultiChoice_option_Inr:
  assumes "MultiChoice_option a = Inr opt"
  shows "option_of a opt"
proof -
  from assms obtain t fmt b fr v where "getitem a ''text'' = Inr t" "getitem a ''@format'' = Inr fmt"
    "cleanstring t fmt = Inr b" "getitem a ''@fraction'' = Inr fr" "float_sign fr = Inr v"
    "opt = (b, if v = Positive then ''correct'' else ''incorrect'')"
    by (auto simp: MultiChoice_option_def bindE_Inr_iff)
  then show ?thesis
    by (simp add: option_of_def answer_text_def fraction_sign_def bindE_def)
qed

lemma mapE_list_all2: "mapE f xs = Inr ys \<Longrightarrow> list_all2 (\<lambda>x y. f x = Inr y) xs ys"
  by (induction xs arbitrary: ys) (auto simp: bindE_Inr_iff)

text \<open>
  Claim C3, amended. In a MultiChoice question there is one option for each answer, in
  order, tagged \<open>correct\<close> if the fraction of the answer is greater than zero and
  \<open>incorrect\<close> otherwise. A ShortAnswer question retains exactly the answers whose
  fraction is the integer 100, in order. A TrueFalse or Numerical question retains one
  answer, the last one whose fraction is 100 (an earlier one is overwritten), and none
  when no answer has the fraction 100. An answer whose fraction is not 100 is never
  retained by these three types.
\<close>

theorem answer_selection:
  assumes "getitem r ''answer'' = Inr ans"
  shows "(MultiChoice_init r = Inr (MultiChoice q fs opts) \<longrightarrow>
            (\<exists>items. py_iter ans = Inr items \<and> list_all2 option_of items opts))
       \<and> (ShortAnswer_init r = Inr (ShortAnswer q fs kept) \<longrightarrow>
            mapE answer_text (filter (\<lambda>a. fraction_int a = Inr 100) (as_list ans)) = Inr kept)
       \<and> (TrueFalse_init r = Inr (TrueFalse q fs a) \<longrightarrow>
            (case last_full (as_list ans) of
               None \<Rightarrow> a = None
             | Some x \<Rightarrow> a \<noteq> None \<and> answer_text x = Inr (the a)))
       \<and> (Numerical_init r = Inr (Numerical q fs a t) \<longrightarrow>
            (case last_full (as_list ans) of
               None \<Rightarrow> a = None \<and> t = None
             | Some x \<Rightarrow> a \<noteq> None \<and> t \<noteq> None \<and> answer_text x = Inr (the a)
                 \<and> answer_tolerance x = Inr (the t)))
       \<and> last_full (as_list ans) =
           (case filter (\<lambda>a. fraction_int a = Inr 100) (as_list ans) of
              [] \<Rightarrow> None
            | y # ys \<Rightarrow> Some (last (y # ys)))"
proof (intro conjI impI)
  assume "MultiChoice_init r = Inr (MultiChoice q fs opts)"
  with assms obtain items where i: "py_iter ans = Inr items"
    and "mapE MultiChoice_option items = Inr opts"
    by (auto simp: MultiChoice_init_def bindE_Inr_iff)
  from mapE_list_all2 [OF this(2)] have "list_all2 option_of items opts"
    by (rule list_all2_mono) (rule MultiChoice_option_Inr)
  with i show "\<exists>items. py_iter ans = Inr items \<and> list_all2 option_of items opts"
    by blast
next
  assume "ShortAnswer_init r = Inr (ShortAnswer q fs kept)"
  with assms have "ShortAnswer_loop (as_list ans) [] = Inr kept"
    by (auto simp: ShortAnswer_init_def bindE_Inr_iff)
  from ShortAnswer_loop_Inr [OF this]
  have "mapE answer_text (filter is_full (as_list ans)) = Inr kept"
    by (auto simp: bindE_Inr_iff)
  moreover have "is_full = (\<lambda>a. fraction_int a = Inr 100)"
    by (rule ext) (simp add: is_full_def)
  ultimately show "mapE answer_text (filter (\<lambda>a. fraction_int a = Inr 100) (as_list ans)) = Inr kept"
    by simp
next
  assume "TrueFalse_init r = Inr (TrueFalse q fs a)"
  with assms have "TrueFalse_loop (as_list ans) None = Inr a"
    by (auto simp: TrueFalse_init_def bindE_Inr_iff)
  from TrueFalse_loop_Inr [OF this]
  show "case last_full (as_list ans) of
          None \<Rightarrow> a = None
        | Some x \<Rightarrow> a \<noteq> None \<and> answer_text x = Inr (the a)"
    by (auto split: option.splits)
next
  assume "Numerical_init r = Inr (Numerical q fs a t)"
  with assms have "Numerical_loop (as_list ans) (None, None) = Inr (a, t)"
    by (auto simp: Numerical_init_def bindE_Inr_iff)
  from Numerical_loop_Inr [OF this]
  show "case last_full (as_list ans) of
          None \<Rightarrow> a = None \<and> t = None
        | Some x \<Rightarrow> a \<noteq> None \<and> t \<noteq> None \<and> answer_text x = Inr (the a)
            \<and> answer_tolerance x = Inr (the t)"
    by (auto split: option.splits)
next
  have "is_full = (\<lambda>a. fraction_int a = Inr 100)"
    by (rule ext) (simp add: is_full_def)
  then show "last_full (as_list ans) =
      (case filter (\<lambda>a. fraction_int a = Inr 100) (as_list ans) of
         [] \<Rightarrow> None
       | y # ys \<Rightarrow> Some (last (y # ys)))"
    by (simp add: last_full_def)
qed

lemma example_fractions:
  "fraction_int (answer_record ''100'' t) = Inr 100" "fraction_int (answer_record ''99'' t) = Inr 99"
  "fraction_int (answer_record ''0'' t) = Inr 0" "fraction_int (answer_record ''101'' t) = Inr 101"
  "fraction_sign (answer_record ''50'' t) = Inr Positive"
  "fraction_sign (answer_record ''0'' t) = Inr Zero"
  "fraction_sign (answer_record ''-25'' t) = Inr Negative"
  by (simp_all add: fraction_int_def fraction_sign_def answer_record_def py_defs num_defs)

lemma example_answers_text: "answer_text (answer_record f t) = Inr (PStr (auto_dollar t))"
  by (simp add: answer_text_def answer_record_def py_defs cleanstring_def)

lemma example_inits:
  "MultiChoice_init example_multichoice =
     Inr (MultiChoice (PStr ''Q'') []
       [(PStr ''x'', ''correct''), (PStr ''y'', ''incorrect''), (PStr ''z'', ''incorrect'')])"
  "ShortAnswer_init example_shortanswer = Inr (ShortAnswer (PStr ''Q'') [] [PStr ''u'', PStr ''x''])"
  "TrueFalse_init example_truefalse = Inr (TrueFalse (PStr ''Q1'') [] (Some (PStr ''true'')))"
  "Numerical_init example_numerical =
     Inr (Numerical (PStr ''Q'') [] (Some (PStr ''2'')) (Some (PStr ''0'')))"
  by (simp_all add: example_multichoice_def example_shortanswer_def example_truefalse_def
        example_numerical_def record_defs init_defs py_defs text_defs num_defs)

lemma example_answers:
  "getitem (question_record ty t answers) ''answer'' = Inr (PList answers)"
  by (simp add: question_record_def py_defs)

theorem answer_selection_witness:
  "getitem example_multichoice ''answer'' =
     Inr (PList [answer_record ''50'' ''x'', answer_record ''0'' ''y'', answer_record ''-25'' ''z''])
   \<and> MultiChoice_init example_multichoice =
     Inr (MultiChoice (PStr ''Q'') []
       [(PStr ''x'', ''correct''), (PStr ''y'', ''incorrect''), (PStr ''z'', ''incorrect'')])
   \<and> list_all2 option_of
       [answer_record ''50'' ''x'', answer_record ''0'' ''y'', answer_record ''-25'' ''z'']
       [(PStr ''x'', ''correct''), (PStr ''y'', ''incorrect''), (PStr ''z'', ''incorrect'')]
   \<and> fraction_sign (answer_record ''50'' ''x'') = Inr Positive
   \<and> fraction_sign (answer_record ''0'' ''y'') = Inr Zero
   \<and> fraction_sign (answer_record ''-25'' ''z'') = Inr Negative
   \<and> ShortAnswer_init example_shortanswer = Inr (ShortAnswer (PStr ''Q'') [] [PStr ''u'', PStr ''x''])
   \<and> mapE answer_text (filter (\<lambda>a. fraction_int a = Inr 100)
        [answer_record ''100'' ''u'', answer_record ''99'' ''v'', answer_record ''0'' ''w'',
         answer_record ''101'' ''y'', answer_record ''100'' ''x'']) = Inr [PStr ''u'', PStr ''x'']
   \<and> TrueFalse_init example_truefalse = Inr (TrueFalse (PStr ''Q1'') [] (Some (PStr ''true'')))
   \<and> last_full [answer_record ''100'' ''true'', answer_record ''0'' ''false''] =
       Some (answer_record ''100'' ''true'')
   \<and> Numerical_init example_numerical =
       Inr (Numerical (PStr ''Q'') [] (Some (PStr ''2'')) (Some (PStr ''0'')))
   \<and> last_full [answer_record ''100'' ''1'', answer_record ''100'' ''2'', answer_record ''101'' ''3''] =
       Some (answer_record ''100'' ''2'')"
proof -
  have mc: "getitem example_multichoice ''answer'' =
      Inr (PList [answer_record ''50'' ''x'', answer_record ''0'' ''y'', answer_record ''-25'' ''z''])"
    and sa: "getitem example_shortanswer ''answer'' =
      Inr (PList [answer_record ''100'' ''u'', answer_record ''99'' ''v'', answer_record ''0'' ''w'',
        answer_record ''101'' ''y'', answer_record ''100'' ''x''])"
    and tf: "getitem example_truefalse ''answer'' =
      Inr (PList [answer_record ''100'' ''true'', answer_record ''0'' ''false''])"
    and nu: "getitem example_numerical ''answer'' =
      Inr (PList [answer_record ''100'' ''1'', answer_record ''100'' ''2'', answer_record ''101'' ''3''])"
    by (simp_all add: example_multichoice_def example_shortanswer_def example_truefalse_def
          example_numerical_def example_answers)
  from answer_selection [OF mc, THEN conjunct1, THEN mp, OF example_inits(1)]
  have 1: "list_all2 option_of
      [answer_record ''50'' ''x'', answer_record ''0'' ''y'', answer_record ''-25'' ''z'']
      [(PStr ''x'', ''correct''), (PStr ''y'', ''incorrect''), (PStr ''z'', ''incorrect'')]"
    by (simp add: py_iter_def)
  from answer_selection [OF sa, THEN conjunct2, THEN conjunct1, THEN mp, OF example_inits(2)]
  have 2: "mapE answer_text (filter (\<lambda>a. fraction_int a = Inr 100)
      [answer_record ''100'' ''u'', answer_record ''99'' ''v'', answer_record ''0'' ''w'',
       answer_record ''101'' ''y'', answer_record ''100'' ''x'']) = Inr [PStr ''u'', PStr ''x'']"
    by (simp add: as_list_def)
  have 3: "last_full [answer_record ''100'' ''true'', answer_record ''0'' ''false''] =
      Some (answer_record ''100'' ''true'')"
    and 4: "last_full [answer_record ''100'' ''1'', answer_record ''100'' ''2'', answer_record ''101'' ''3''] =
      Some (answer_record ''100'' ''2'')"
    by (simp_all add: last_full_def is_full_def example_fractions)
  from mc 1 2 3 4 example_inits show ?thesis by (simp add: example_fractions)
qed

text \<open>
  The claim as it stands fails at a numerical question with two answers of full credit:
  the first has the fraction 100 and is not retained.
\<close>

theorem answer_selection_counterexample:
  "fraction_int (answer_record ''100'' ''1'') = Inr 100
   \<and> getitem example_numerical ''answer'' =
       Inr (PList [answer_record ''100'' ''1'', answer_record ''100'' ''2'', answer_record ''101'' ''3''])
   \<and> answer_text (answer_record ''100'' ''1'') = Inr (PStr ''1'')
   \<and> Numerical_init example_numerical =
       Inr (Numerical (PStr ''Q'') [] (Some (PStr ''2'')) (Some (PStr ''0'')))"
proof -
  have "getitem example_numerical ''answer'' =
      Inr (PList [answer_record ''100'' ''1'', answer_record ''100'' ''2'', answer_record ''101'' ''3''])"
    by (simp add: example_numerical_def example_answers)
  moreover have "answer_text (answer_record ''100'' ''1'') = Inr (PStr ''1'')"
    by (simp add: example_answers_text auto_dollar_def)
  ultimately show ?thesis
    by (simp add: example_fractions example_inits)
qed

section \<open>Attachments\<close>

text \<open>
  What the loop over the descriptors reads of a descriptor: its name, whether its
  encoding is base64, and the bytes that its payload decodes to.
\<close>

definition descriptor_name :: "pyval \<Rightarrow> string option" where
  "descriptor_name file = (case getitem file ''@name'' of Inr (PStr n) \<Rightarrow> Some n | _ \<Rightarrow> None)"

definition well_formed_descriptor :: "pyval \<Rightarrow> bool" where
  "well_formed_descriptor file = (descriptor_name file \<noteq> None \<and> \<not> isl (getitem file ''@encoding''))"

definition is_base64 :: "pyval \<Rightarrow> bool" where
  "is_base64 file = (getitem file ''@encoding'' = Inr (PStr ''base64''))"

definition payload_bytes :: "pyval \<Rightarrow> string option" where
  "payload_bytes file =
     (case bindE (getitem file ''#text'') b64decode of Inr bytes \<Rightarrow> Some bytes | Inl e \<Rightarrow> None)"

text \<open>A descriptor can be processed unless it is one in base64 whose payload does not decode.\<close>

definition decodable :: "pyval \<Rightarrow> bool" where
  "decodable file = (if is_base64 file then payload_bytes file \<noteq> None else True)"

text \<open>The marker and the attachment that a descriptor contributes.\<close>

definition marker_of :: "pyval \<Rightarrow> string" where
  "marker_of file =
     (case descriptor_name file of Some n \<Rightarrow> '' [[ linked file '' @ n @ '' ]]'' | None \<Rightarrow> [])"

definition attachment_of :: "pyval \<Rightarrow> pyval \<times> string" where
  "attachment_of file =
     (case (descriptor_name file, payload_bytes file) of
        (Some n, Some bytes) \<Rightarrow> (PStr n, bytes)
      | _ \<Rightarrow> (PNone, []))"

text \<open>A text with every square bracket escaped, as Cloze and ShortAnswer have it.\<close>

definition escaped :: "string \<Rightarrow> string" where
  "escaped s = replace '']'' rbrack (replace ''['' lbrack s)"

lemma escape_brackets_escaped: "escape_brackets (PStr s) = Inr (PStr (escaped s))"
  by (simp add: escape_brackets_def py_replace_def bindE_def escaped_def)

lemma attach_files_descriptors:
  assumes "list_all well_formed_descriptor fs"
  shows "if list_all decodable fs
         then attach_files fs (PStr q, acc) =
                (None, PStr (q @ concat (map marker_of fs)), acc @ map attachment_of (filter is_base64 fs))
         else fst (attach_files fs (PStr q, acc)) \<noteq> None"
  using assms
proof (induction fs arbitrary: q acc)
  case Nil
  show ?case by simp
next
  case (Cons d fs)
  from Cons.prems have wfd: "well_formed_descriptor d" and wf: "list_all well_formed_descriptor fs"
    by simp_all
  from wfd obtain n where n: "getitem d ''@name'' = Inr (PStr n)"
    by (auto simp: well_formed_descriptor_def descriptor_name_def split: sum.splits pyval.splits)
  from wfd obtain enc where enc: "getitem d ''@encoding'' = Inr enc"
    by (cases "getitem d ''@encoding''") (simp_all add: well_formed_descriptor_def)
  note IH = Cons.IH [OF wf]
  from n have md: "marker_of d = '' [[ linked file '' @ n @ '' ]]''"
    by (simp add: marker_of_def descriptor_name_def)
  show ?case
  proof (cases "is_base64 d")
    case False
    with enc have ne: "enc \<noteq> PStr ''base64''" by (simp add: is_base64_def)
    have st: "attach_files (d # fs) (PStr q, acc) = attach_files fs (PStr (q @ marker_of d), acc)"
      by (simp add: n enc ne bindE_def str_add_def py_iadd_def md)
    from False have dec: "decodable d" by (simp add: decodable_def)
    from IH [of "q @ marker_of d" acc] show ?thesis
      by (simp add: st dec False del: attach_files.simps)
  next
    case True
    with enc have e: "enc = PStr ''base64''" by (simp add: is_base64_def)
    show ?thesis
    proof (cases "payload_bytes d")
      case None
      then have "isl (bindE (getitem d ''#text'') b64decode)"
        by (simp add: payload_bytes_def split: sum.splits)
      then have "fst (attach_files (d # fs) (PStr q, acc)) \<noteq> None"
        by (cases "getitem d ''#text''")
          (auto simp: n enc e bindE_def split: sum.splits)
      moreover from True None have "\<not> decodable d" by (simp add: decodable_def)
      ultimately show ?thesis by (simp del: attach_files.simps)
    next
      case (Some bytes)
      then obtain t where t: "getitem d ''#text'' = Inr t" "b64decode t = Inr bytes"
        by (auto simp: payload_bytes_def bindE_def split: sum.splits)
      from n Some have ad: "attachment_of d = (PStr n, bytes)"
        by (simp add: attachment_of_def descriptor_name_def)
      have st: "attach_files (d # fs) (PStr q, acc) =
          attach_files fs (PStr (q @ marker_of d), acc @ [attachment_of d])"
        by (simp add: n enc e t bindE_def str_add_def py_iadd_def md ad)
      from True Some have dec: "decodable d" by (simp add: decodable_def)
      from IH [of "q @ marker_of d" "acc @ [attachment_of d]"] show ?thesis
        by (simp add: st dec True del: attach_files.simps)
    qed
  qed
qed

text \<open>
  Claim C8, amended. Let the text of a question record of a supported type normalize
  to the string \<open>q\<close> and carry the file descriptors \<open>as_list f\<close> (one descriptor alone
  is wrapped into a list), each with a name and an encoding. If every payload in
  base64 decodes, \<open>Question.__init__\<close> yields \<open>q\<close> followed by one marker
  \<open> [[ linked file name ]]\<close> for each descriptor, in order and whatever its encoding,
  and as attachments the names and decoded bytes of the descriptors in base64, in
  order. A question constructed from the record has these attachments; its text is
  that text for every type but ShortAnswer and Cloze, which escape the square brackets
  of the text, those of the markers included (Cloze then puts the placeholders of its
  blanks); and a description is always constructed. If some payload in base64 does not
  decode, the construction fails and the loop files the record printed as a Malformed
  entry under \<open>*malformed*\<close>.
\<close>

theorem attachment_extraction:
  assumes "getitem r ''questiontext'' = Inr qt" and "getitem qt ''text'' = Inr t0"
    and "getitem qt ''@format'' = Inr fmt" and "cleanstring t0 fmt = Inr (PStr q)"
    and "getitem qt ''file'' = Inr f" and "list_all well_formed_descriptor (as_list f)"
    and "getitem r ''@type'' = Inr (PStr ty)" and "map_of constructors ty = Some init"
  shows "if list_all decodable (as_list f)
         then Question_init r =
                Inr (PStr (q @ concat (map marker_of (as_list f))),
                     map attachment_of (filter is_base64 (as_list f)))
              \<and> (ty = ''description'' \<longrightarrow>
                   init r = Inr (Description (PStr (q @ concat (map marker_of (as_list f))))
                                   (map attachment_of (filter is_base64 (as_list f)))))
              \<and> (init r = Inr x \<longrightarrow>
                   files_of x = map attachment_of (filter is_base64 (as_list f))
                   \<and> (if ty = ''shortanswer''
                       then question_of x = PStr (escaped (q @ concat (map marker_of (as_list f))))
                       else if ty = ''cloze''
                       then (\<exists>s ans. cloze_loop
                                (re_findall ''{'' ''}'' (escaped (q @ concat (map marker_of (as_list f)))))
                                (escaped (q @ concat (map marker_of (as_list f))), []) = Inr (s, ans)
                              \<and> question_of x = PStr s)
                       else question_of x = PStr (q @ concat (map marker_of (as_list f)))))
         else isl (init r)
              \<and> step s r = file_entry (''*malformed*'', Malformed (PStr (py_str r)) []) s"
proof -
  let ?text = "q @ concat (map marker_of (as_list f))"
  let ?atts = "map attachment_of (filter is_base64 (as_list f))"
  have d: "descriptors qt = as_list f"
    by (simp add: descriptors_def assms(5))
  have run: "Question_run r =
      (case attach_files (as_list f) (PStr q, []) of
         (err, st) \<Rightarrow> (case err of None \<Rightarrow> Inr st | Some e \<Rightarrow> Inl e, r))"
    by (simp add: Question_run_eq [OF assms(1-4)] d is_list_def)
  note files = attach_files_descriptors [OF assms(6), of q "[]"]
  show ?thesis
  proof (cases "list_all decodable (as_list f)")
    case True
    with files have init: "Question_init r = Inr (PStr ?text, ?atts)"
      by (simp add: Question_init_def run)
    have 1: "ty = ''description'' \<longrightarrow> init r = Inr (Description (PStr ?text) ?atts)"
      using assms(8) by (auto simp: constructors_def Description_init_def init bindE_def)
    have 2: "init r = Inr x \<longrightarrow>
        files_of x = ?atts
        \<and> (if ty = ''shortanswer'' then question_of x = PStr (escaped ?text)
            else if ty = ''cloze''
            then (\<exists>s ans. cloze_loop (re_findall ''{'' ''}'' (escaped ?text)) (escaped ?text, []) =
                      Inr (s, ans) \<and> question_of x = PStr s)
            else question_of x = PStr ?text)"
    proof
      assume "init r = Inr x"
      from constructed_parts [OF assms(8) this] show "files_of x = ?atts
        \<and> (if ty = ''shortanswer'' then question_of x = PStr (escaped ?text)
            else if ty = ''cloze''
            then (\<exists>s ans. cloze_loop (re_findall ''{'' ''}'' (escaped ?text)) (escaped ?text, []) =
                      Inr (s, ans) \<and> question_of x = PStr s)
            else question_of x = PStr ?text)"
        by (auto simp: init escape_brackets_escaped)
    qed
    from init 1 2 have "Question_init r = Inr (PStr ?text, ?atts)
        \<and> (ty = ''description'' \<longrightarrow> init r = Inr (Description (PStr ?text) ?atts))
        \<and> (init r = Inr x \<longrightarrow>
             files_of x = ?atts
             \<and> (if ty = ''shortanswer'' then question_of x = PStr (escaped ?text)
                 else if ty = ''cloze''
                 then (\<exists>s ans. cloze_loop (re_findall ''{'' ''}'' (escaped ?text)) (escaped ?text, []) =
                           Inr (s, ans) \<and> question_of x = PStr s)
                 else question_of x = PStr ?text))"
      by (intro conjI)
    then show ?thesis unfolding if_P [OF True] .
  next
    case False
    with files have "isl (Question_init r)"
      by (auto simp: Question_init_def run split: prod.splits option.splits)
    then obtain e where e: "Question_init r = Inl e"
      by (cases "Question_init r") simp_all
    from constructors_fail [OF e assms(8)] have i: "init r = Inl e" .
    have same: "record_after r = r"
      by (simp add: record_after_def run split: prod.splits)
    from assms(7,8) have "ty \<noteq> ''category''"
      by (auto simp: constructors_def)
    with assms(7) have "\<not> is_marker r"
      by (simp add: is_marker_def)
    then have "step s r = file_entry (bucket_entry r) s"
      by (rule step_entry)
    moreover have "bucket_entry r = (''*malformed*'', Malformed (PStr (py_str r)) [])"
      by (simp add: bucket_entry_def assms(7,8) i same)
    ultimately show ?thesis using False i by simp
  qed
qed

text \<open>A matching question and a short answer question with a file each.\<close>

definition example_matching_file :: pyval where
  "example_matching_file =
     PDict [(''@type'', PStr ''matching''),
            (''questiontext'',
               PDict [(''@format'', PStr ''html''), (''text'', PStr ''Q''),
                      (''file'', file_descriptor ''key.txt'' ''base64'' ''aGVs='')]),
            (''subquestion'',
               PList [PDict [(''@format'', PStr ''html''), (''text'', PStr ''a''),
                             (''answer'', PDict [(''text'', PStr ''b'')])]])]"

definition example_shortanswer_file :: pyval where
  "example_shortanswer_file =
     PDict [(''@type'', PStr ''shortanswer''),
            (''questiontext'',
               PDict [(''@format'', PStr ''html''), (''text'', PStr ''Q''),
                      (''file'', file_descriptor ''d.png'' ''none'' [])]),
            (''answer'', answer_record ''100'' ''u'')]"

lemma example_descriptors:
  "well_formed_descriptor (file_descriptor n e p)"
  "is_base64 (file_descriptor n e p) = (e = ''base64'')"
  "marker_of (file_descriptor n e p) = '' [[ linked file '' @ n @ '' ]]''"
  "descriptor_name (file_descriptor n e p) = Some n"
  "payload_bytes (file_descriptor n e p) =
     (case b64decode (PStr p) of Inr bytes \<Rightarrow> Some bytes | Inl e \<Rightarrow> None)"
  by (simp_all add: well_formed_descriptor_def descriptor_name_def is_base64_def marker_of_def
        payload_bytes_def file_descriptor_def py_defs)

lemma example_payloads:
  "b64decode (PStr ''aGVsbG8='') = Inr ''hello''" "b64decode (PStr ''aGVs='') = Inr ''hel''"
  "b64decode (PStr ''!!'') = Inl ValueError"
  by (simp_all add: b64decode_def b64_index_def) code_simp+

lemma as_list_descriptor: "as_list (file_descriptor n e p) = [file_descriptor n e p]"
  by (simp add: as_list_def file_descriptor_def)

theorem attachment_extraction_witness:
  "Question_init (example_with_files
      (PList [file_descriptor ''diagram.png'' ''base64'' ''aGVsbG8='',
              file_descriptor ''notes.txt'' ''none'' ''see above''])) =
     Inr (PStr ''Q [[ linked file diagram.png ]] [[ linked file notes.txt ]]'',
          [(PStr ''diagram.png'', ''hello'')])
   \<and> Description_init (example_with_files
      (PList [file_descriptor ''diagram.png'' ''base64'' ''aGVsbG8='',
              file_descriptor ''notes.txt'' ''none'' ''see above''])) =
     Inr (Description (PStr ''Q [[ linked file diagram.png ]] [[ linked file notes.txt ]]'')
           [(PStr ''diagram.png'', ''hello'')])
   \<and> Matching_init example_matching_file =
     Inr (Matching (PStr ''Q [[ linked file key.txt ]]'') [(PStr ''key.txt'', ''hel'')]
           [(PStr ''a'', PStr ''b'')])
   \<and> ShortAnswer_init example_shortanswer_file =
     Inr (ShortAnswer (PStr (''Q '' @ lbrack @ lbrack @ '' linked file d.png '' @ rbrack @ rbrack)) []
           [PStr ''u''])
   \<and> escaped ''Q [[ linked file d.png ]]'' =
       ''Q '' @ lbrack @ lbrack @ '' linked file d.png '' @ rbrack @ rbrack
   \<and> isl (Description_init (example_with_files (file_descriptor ''diagram.png'' ''base64'' ''!!'')))
   \<and> step (initial []) (example_with_files (file_descriptor ''diagram.png'' ''base64'' ''!!'')) =
       \<lparr>questions = [(''*malformed*'',
            [Malformed (PStr (''{'@type': 'description', 'questiontext': {'@format': 'html', '' @
               [CHR 0x27] @ ''text': 'Q', 'file': {'@name': 'diagram.png', '@encoding': 'base64', '' @
               [CHR 0x27] @ ''#text': '!!'}}}'')) []])],
        category = PNone, files = []\<rparr>"
proof -
  let ?good = "PList [file_descriptor ''diagram.png'' ''base64'' ''aGVsbG8='',
                      file_descriptor ''notes.txt'' ''none'' ''see above'']"
  let ?bad = "file_descriptor ''diagram.png'' ''base64'' ''!!''"
  let ?key = "file_descriptor ''key.txt'' ''base64'' ''aGVs=''"
  let ?png = "file_descriptor ''d.png'' ''none'' []"
  let ?qt = "\<lambda>fs. PDict [(''@format'', PStr ''html''), (''text'', PStr ''Q''), (''file'', fs)]"
  have r: "getitem (example_with_files fs) ''questiontext'' = Inr (?qt fs)"
    and t: "getitem (?qt fs) ''text'' = Inr (PStr ''Q'')"
    and f: "getitem (?qt fs) ''@format'' = Inr (PStr ''html'')"
    and d: "getitem (?qt fs) ''file'' = Inr fs"
    and ty: "getitem (example_with_files fs) ''@type'' = Inr (PStr ''description'')" for fs
    by (simp_all add: example_with_files_def py_defs)
  have rm: "getitem example_matching_file ''questiontext'' = Inr (?qt ?key)"
    and tym: "getitem example_matching_file ''@type'' = Inr (PStr ''matching'')"
    and rs: "getitem example_shortanswer_file ''questiontext'' = Inr (?qt ?png)"
    and tys: "getitem example_shortanswer_file ''@type'' = Inr (PStr ''shortanswer'')"
    by (simp_all add: example_matching_file_def example_shortanswer_file_def py_defs)
  have c: "cleanstring (PStr ''Q'') (PStr ''html'') = Inr (PStr ''Q'')"
    by (simp add: text_defs)
  have k: "map_of constructors ''description'' = Some Description_init"
    and km: "map_of constructors ''matching'' = Some Matching_init"
    and ks: "map_of constructors ''shortanswer'' = Some ShortAnswer_init"
    by (simp_all add: constructors_def)
  have wg: "list_all well_formed_descriptor (as_list ?good)"
    and dg: "list_all decodable (as_list ?good)"
    by (simp_all add: as_list_def decodable_def example_descriptors example_payloads)
  have wb: "list_all well_formed_descriptor (as_list ?bad)"
    and db: "\<not> list_all decodable (as_list ?bad)"
    and wk: "list_all well_formed_descriptor (as_list ?key)"
    and dk: "list_all decodable (as_list ?key)"
    and wp: "list_all well_formed_descriptor (as_list ?png)"
    and dp: "list_all decodable (as_list ?png)"
    by (simp_all add: as_list_descriptor decodable_def example_descriptors example_payloads)
  have mg: "concat (map marker_of (as_list ?good)) =
      '' [[ linked file diagram.png ]] [[ linked file notes.txt ]]''"
    and ag: "map attachment_of (filter is_base64 (as_list ?good)) = [(PStr ''diagram.png'', ''hello'')]"
    by (simp_all add: as_list_def attachment_of_def example_descriptors example_payloads)
  have mk: "concat (map marker_of (as_list ?key)) = '' [[ linked file key.txt ]]''"
    and ak: "map attachment_of (filter is_base64 (as_list ?key)) = [(PStr ''key.txt'', ''hel'')]"
    and mp: "concat (map marker_of (as_list ?png)) = '' [[ linked file d.png ]]''"
    and ap: "map attachment_of (filter is_base64 (as_list ?png)) = []"
    by (simp_all add: as_list_descriptor attachment_of_def example_descriptors example_payloads)
  from attachment_extraction [OF r t f c d wg ty k, of _ "initial []"] dg
  have 1: "Question_init (example_with_files ?good) =
      Inr (PStr ''Q [[ linked file diagram.png ]] [[ linked file notes.txt ]]'',
           [(PStr ''diagram.png'', ''hello'')])"
    and 2: "Description_init (example_with_files ?good) =
      Inr (Description (PStr ''Q [[ linked file diagram.png ]] [[ linked file notes.txt ]]'')
            [(PStr ''diagram.png'', ''hello'')])"
    by (simp_all add: mg ag)
  have im: "Matching_init example_matching_file =
      Inr (Matching (PStr ''Q [[ linked file key.txt ]]'') [(PStr ''key.txt'', ''hel'')]
            [(PStr ''a'', PStr ''b'')])"
    by (simp add: example_matching_file_def file_descriptor_def init_defs py_defs text_defs
          example_payloads)
  have "escaped ''Q [[ linked file d.png ]]'' =
      ''Q '' @ lbrack @ lbrack @ '' linked file d.png '' @ rbrack @ rbrack"
    by (simp add: escaped_def lbrack_def rbrack_def)
  note e = this
  have "ShortAnswer_init example_shortanswer_file =
      Inr (ShortAnswer (PStr (escaped ''Q [[ linked file d.png ]]'')) [] [PStr ''u''])"
    by (simp add: e) (simp add: example_shortanswer_file_def file_descriptor_def answer_record_def
          init_defs py_defs text_defs num_defs)
  note sa = this
  from attachment_extraction [OF rm t f c d wk tym km, of _ "initial []"] dk im
  have 3: "files_of (Matching (PStr ''Q [[ linked file key.txt ]]'') [(PStr ''key.txt'', ''hel'')]
            [(PStr ''a'', PStr ''b'')]) = [(PStr ''key.txt'', ''hel'')]"
    by (simp add: mk ak)
  from attachment_extraction [OF rs t f c d wp tys ks, of _ "initial []"] dp sa
  have 4: "question_of (ShortAnswer (PStr (escaped ''Q [[ linked file d.png ]]'')) [] [PStr ''u'']) =
      PStr (escaped ''Q [[ linked file d.png ]]'')"
    by (simp add: mp ap)
  from attachment_extraction [OF r t f c d wb ty k, of _ "initial []"] db
  have 5: "isl (Description_init (example_with_files ?bad))
      \<and> step (initial []) (example_with_files ?bad) =
          file_entry (''*malformed*'', Malformed (PStr (py_str (example_with_files ?bad))) []) (initial [])"
    by simp
  have 6: "file_entry (''*malformed*'', q) (initial []) =
      \<lparr>questions = [(''*malformed*'', [q])], category = PNone, files = []\<rparr>" for q
    by (simp add: file_entry_def initial_def add_question_def)
  have 7: "py_str (example_with_files ?bad) =
      ''{'@type': 'description', 'questiontext': {'@format': 'html', '' @
      [CHR 0x27] @ ''text': 'Q', 'file': {'@name': 'diagram.png', '@encoding': 'base64', '' @
      [CHR 0x27] @ ''#text': '!!'}}}''"
    by (simp add: example_with_files_def file_descriptor_def str_defs)
  from 1 2 im sa e 5 show ?thesis
    by (simp add: 6 7)
qed

text \<open>
  The claim as it stands fails at a short answer question with a file: the text of the
  question does not hold the marker, whose brackets have been escaped.
\<close>

theorem attachment_extraction_counterexample:
  "ShortAnswer_init example_shortanswer_file =
     Inr (ShortAnswer (PStr (''Q '' @ lbrack @ lbrack @ '' linked file d.png '' @ rbrack @ rbrack)) []
           [PStr ''u''])
   \<and> \<not> occurs '' [[ linked file d.png ]]''
         (''Q '' @ lbrack @ lbrack @ '' linked file d.png '' @ rbrack @ rbrack)"
proof -
  have "ShortAnswer_init example_shortanswer_file =
      Inr (ShortAnswer (PStr (''Q '' @ lbrack @ lbrack @ '' linked file d.png '' @ rbrack @ rbrack)) []
            [PStr ''u''])"
    by (simp add: example_shortanswer_file_def file_descriptor_def answer_record_def
          init_defs py_defs text_defs num_defs)
  moreover have "\<not> occurs '' [[ linked file d.png ]]''
      (''Q '' @ lbrack @ lbrack @ '' linked file d.png '' @ rbrack @ rbrack)"
    by (simp add: lbrack_def rbrack_def)
  ultimately show ?thesis by simp
qed

section \<open>The files of two categories\<close>



























text \<open>
  An attachment whose name has a \<open>/\<close> cannot be written: the run ends with the
  failure of \<open>open\<close>, at the final write, and leaves no file.
\<close>

definition example_description_slash :: pyval where
  "example_description_slash =
     example_with_files (file_descriptor ''img/d.png'' ''base64'' ''aGVsbG8='')"

lemma attachment_name_with_slash:
  "main [category_record ''A'', example_description_slash] [] = (Some OSError, [])"
proof -
  have "bucket_entry example_description_slash =
      (''description'', Description (PStr ''Q [[ linked file img/d.png ]]'')
         [(PStr ''img/d.png'', ''hello'')])"
    by (simp add: example_description_slash_def bucket_entry_def constructors_def record_defs
          init_defs py_defs text_defs example_payloads)
  moreover have "\<not> is_marker example_description_slash"
    by (simp add: is_marker_def example_description_slash_def record_defs py_defs)
  ultimately show ?thesis
    using main_marker_then_question [OF marker_category_record, of example_description_slash "''A''" "[]"]
    by (simp add: py_defs can_open_def dirname_def)
qed

section \<open>The characters of the text\<close>

lemma find_close_chars:
  "find_close cl s = Some (g, r) \<Longrightarrow> set g \<subseteq> set s \<and> set r \<subseteq> set s"
proof (induction s arbitrary: g)
  case Nil
  then show ?case by (simp split: if_splits)
next
  case (Cons c cs)
  show ?case
  proof (cases "prefix cl (c # cs)")
    case True
    with Cons.prems have "g = []" "r = drop (length cl) (c # cs)" by simp_all
    then show ?thesis using set_drop_subset [of "length cl" "c # cs"] by simp
  next
    case False
    with Cons.prems obtain g' where "find_close cl cs = Some (g', r)" "g = c # g'"
      by (auto split: if_splits option.splits)
    with Cons.IH [of g'] show ?thesis by auto
  qed
qed

lemma re_sub_chars:
  "(\<And>g. set (f g) \<subseteq> set g \<union> A) \<Longrightarrow> set (re_sub opn cl f s) \<subseteq> set s \<union> A"
proof (induction opn cl f s rule: re_sub.induct)
  case (1 opn cl f)
  show ?case by simp
next
  case (2 opn cl f c cs)
  show ?case
  proof (cases "opn \<noteq> [] \<and> prefix opn (c # cs)")
    case False
    from 2(3) [OF False 2(4)] have "set (re_sub opn cl f cs) \<subseteq> set cs \<union> A" .
    with False show ?thesis by auto
  next
    case True
    show ?thesis
    proof (cases "find_close cl (drop (length opn) (c # cs))")
      case None
      from 2(1) [OF True None 2(4)] have "set (re_sub opn cl f cs) \<subseteq> set cs \<union> A" .
      with True None show ?thesis by auto
    next
      case (Some p)
      obtain g r where p: "p = (g, r)" by (cases p)
      from find_close_chars [of cl "drop (length opn) (c # cs)" g r] Some p
      have "set g \<subseteq> set (c # cs)" "set r \<subseteq> set (c # cs)"
        using set_drop_subset [of "length opn" "c # cs"] by auto
      moreover from 2(2) [OF True Some p [symmetric] 2(4)]
      have "set (re_sub opn cl f r) \<subseteq> set r \<union> A" .
      moreover have "set (f g) \<subseteq> set g \<union> A" by (rule 2(4))
      ultimately show ?thesis using True Some p by auto
    qed
  qed
qed

lemma replace_chars: "set (replace old new s) \<subseteq> set s \<union> set new"
proof (induction old new s rule: replace.induct)
  case (1 old new)
  show ?case by simp
next
  case (2 old new c cs)
  show ?case
  proof (cases "old \<noteq> [] \<and> prefix old (c # cs)")
    case True
    with 2(1) have "set (replace old new (drop (length old) (c # cs))) \<subseteq>
        set (drop (length old) (c # cs)) \<union> set new" by simp
    with True show ?thesis using set_drop_subset [of "length old" "c # cs"] by auto
  next
    case False
    with 2(2) show ?thesis by auto
  qed
qed

lemma replace_char_absent: "c \<notin> set new \<Longrightarrow> c \<notin> set (replace [c] new s)"
proof (induction "[c]" new s rule: replace.induct)
  case (1 new)
  show ?case by simp
next
  case (2 new d ds)
  show ?case
  proof (cases "d = c")
    case True
    with 2 show ?thesis by simp
  next
    case False
    with 2 show ?thesis by simp
  qed
qed

lemma cleanstring_html_no_newline: "NL \<notin> set (cleanstring_html t)"
proof -
  have w: "set (wrap_dollars g) \<subseteq> set g \<union> {CHR ''$''}" for g
    by (auto simp: wrap_dollars_def)
  have p: "set ((\<lambda>g. ''<p>'') g) \<subseteq> set g \<union> set ''<p>''" for g :: string
    by simp
  let ?o1 = "strip_newlines t"
  let ?o2 = "re_sub ''$'' ''$'' wrap_dollars ?o1"
  let ?o3 = "re_sub [BSL, CHR ''(''] [BSL, CHR '')''] wrap_dollars ?o2"
  let ?o4 = "re_sub [BSL, CHR ''[''] [BSL, CHR '']''] wrap_dollars ?o3"
  let ?o5 = "re_sub ''<p '' ''>'' (\<lambda>g. ''<p>'') ?o4"
  have 1: "NL \<notin> set ?o1" by (simp add: strip_newlines_def)
  have 2: "NL \<notin> set ?o2" using re_sub_chars [of wrap_dollars "{CHR ''$''}", OF w] 1 by fastforce
  have 3: "NL \<notin> set ?o3" using re_sub_chars [of wrap_dollars "{CHR ''$''}", OF w] 2 by fastforce
  have 4: "NL \<notin> set ?o4" using re_sub_chars [of wrap_dollars "{CHR ''$''}", OF w] 3 by fastforce
  have 5: "NL \<notin> set ?o5" using re_sub_chars [of "\<lambda>g. ''<p>''" "set ''<p>''", OF p] 4 by fastforce
  have "NL \<notin> set (replace ''<p></p>'' [] ?o5)" using replace_chars [of "''<p></p>''" "[]" ?o5] 5 by auto
  then show ?thesis by (simp add: cleanstring_html_def Let_def)
qed


text \<open>
  Every square bracket of a text belongs to a placeholder \<open>[v]\<close> whose symbol \<open>v\<close> is one
  of the ten variables.
\<close>

fun placeholders_only :: "string \<Rightarrow> bool" where
  "placeholders_only [] = True"
| "placeholders_only (c # cs) =
     (if c = CHR ''[''
      then (case cs of
              v # d # rest \<Rightarrow> [v] \<in> set variables \<and> d = CHR '']'' \<and> placeholders_only rest
            | _ \<Rightarrow> False)
      else c \<noteq> CHR '']'' \<and> placeholders_only cs)"

lemma placeholders_only_append:
  "CHR ''['' \<notin> set p \<Longrightarrow> CHR '']'' \<notin> set p \<Longrightarrow>
   placeholders_only (p @ rest) = placeholders_only rest"
  by (induction p) auto

lemma placeholders_only_plain:
  "CHR ''['' \<notin> set s \<Longrightarrow> CHR '']'' \<notin> set s \<Longrightarrow> placeholders_only s"
  using placeholders_only_append [of s "[]"] by simp

lemma variables_chars:
  "v \<in> set variables \<Longrightarrow> \<exists>ch. v = [ch] \<and> ch \<noteq> CHR ''{'' \<and> ch \<noteq> CHR ''['' \<and> ch \<noteq> CHR '']'' \<and> ch \<noteq> NL"
  by (auto simp: variables_def)

lemma replace_placeholder:
  assumes "CHR ''['' \<notin> set p" and "CHR '']'' \<notin> set p" and "v \<in> set variables"
  shows "placeholders_only s \<Longrightarrow>
         placeholders_only (replace (CHR ''{'' # p) (''['' @ v @ '']'') s)"
proof (induction "length s" arbitrary: s rule: less_induct)
  case less
  let ?old = "CHR ''{'' # p" and ?new = "''['' @ v @ '']''"
  from variables_chars [OF assms(3)] obtain ch where ch: "v = [ch]" by blast
  show ?case
  proof (cases s)
    case Nil
    then show ?thesis by simp
  next
    case (Cons c cs)
    show ?thesis
    proof (cases "prefix ?old s")
      case True
      then obtain rest where rest: "s = ?old @ rest" by (auto simp: prefix_def)
      then have d: "drop (length ?old) s = rest" by simp
      from less.prems rest assms(1,2) have "placeholders_only rest"
        using placeholders_only_append [of ?old rest] by simp
      moreover from rest have "length rest < length s" by simp
      ultimately have "placeholders_only (replace ?old ?new rest)"
        by (rule less.hyps [rotated])
      moreover from True Cons d have "replace ?old ?new s = ?new @ replace ?old ?new rest"
        by simp
      ultimately show ?thesis using assms(3) ch by simp
    next
      case False
      with Cons have r: "replace ?old ?new s = c # replace ?old ?new cs" by auto
      show ?thesis
      proof (cases "c = CHR ''[''")
        case c: False
        with less.prems Cons have "c \<noteq> CHR '']''" "placeholders_only cs" by simp_all
        moreover from Cons have "length cs < length s" by simp
        ultimately show ?thesis using less.hyps [of cs] r c by simp
      next
        case c: True
        with less.prems Cons obtain w rest where cs: "cs = w # CHR '']'' # rest"
          and w: "[w] \<in> set variables" and pr: "placeholders_only rest"
          by (auto split: list.splits)
        from variables_chars [OF w] have "w \<noteq> CHR ''{''" by simp
        with cs have "replace ?old ?new cs = w # CHR '']'' # replace ?old ?new rest"
          by simp
        moreover from Cons cs have "length rest < length s" by simp
        with pr have "placeholders_only (replace ?old ?new rest)"
          by (rule less.hyps [rotated])
        ultimately show ?thesis using r c w by simp
      qed
    qed
  qed
qed

lemma re_findall_chars: "g \<in> set (re_findall opn cl s) \<Longrightarrow> set g \<subseteq> set s"
proof (induction opn cl s rule: re_findall.induct)
  case (1 opn cl)
  then show ?case by simp
next
  case (2 opn cl c cs)
  show ?case
  proof (cases "opn \<noteq> [] \<and> prefix opn (c # cs)")
    case False
    with 2(3) [OF False] 2(4) show ?thesis by auto
  next
    case True
    show ?thesis
    proof (cases "find_close cl (drop (length opn) (c # cs))")
      case None
      with True 2(1) [OF True None] 2(4) show ?thesis by auto
    next
      case (Some p)
      obtain h r where p: "p = (h, r)" by (cases p)
      from find_close_chars [of cl "drop (length opn) (c # cs)" h r] Some p
      have hr: "set h \<subseteq> set (c # cs)" "set r \<subseteq> set (c # cs)"
        using set_drop_subset [of "length opn" "c # cs"] by auto
      from 2(4) True Some p have "g = h \<or> g \<in> set (re_findall opn cl r)" by simp
      then show ?thesis
      proof
        assume "g = h"
        with hr show ?thesis by simp
      next
        assume "g \<in> set (re_findall opn cl r)"
        from 2(2) [OF True Some p [symmetric] this] hr show ?thesis by auto
      qed
    qed
  qed
qed

lemma nth_item_variables: "nth_item variables n = Inr v \<Longrightarrow> v \<in> set variables"
  by (auto simp: nth_item_def split: if_splits)

lemma cloze_loop_placeholders:
  "cloze_loop ms st = Inr st' \<Longrightarrow> placeholders_only (fst st) \<Longrightarrow>
   list_all (\<lambda>m. CHR ''['' \<notin> set m \<and> CHR '']'' \<notin> set m) ms \<Longrightarrow>
   placeholders_only (fst st')"
proof (induction ms arbitrary: st)
  case Nil
  then show ?case by simp
next
  case (Cons m ms)
  from Cons.prems(1) obtain answer variable where
    v: "nth_item variables (length (snd st)) = Inr variable"
    and rest: "cloze_loop ms (replace (''{'' @ m @ ''}'') (''['' @ variable @ '']'') (fst st),
        snd st @ [(variable, answer)]) = Inr st'"
    by (auto simp: bindE_def split: sum.splits)
  from Cons.prems(3) have m: "CHR ''['' \<notin> set (m @ ''}'')" "CHR '']'' \<notin> set (m @ ''}'')"
    and ms: "list_all (\<lambda>m. CHR ''['' \<notin> set m \<and> CHR '']'' \<notin> set m) ms"
    by simp_all
  from replace_placeholder [OF m nth_item_variables [OF v] Cons.prems(2)]
  have "placeholders_only (replace (''{'' @ m @ ''}'') (''['' @ variable @ '']'') (fst st))"
    by simp
  with Cons.IH [OF rest _ ms] show ?case by simp
qed

lemma cloze_loop_no_newline:
  "cloze_loop ms st = Inr st' \<Longrightarrow> NL \<notin> set (fst st) \<Longrightarrow> NL \<notin> set (fst st')"
proof (induction ms arbitrary: st)
  case Nil
  then show ?case by simp
next
  case (Cons m ms)
  from Cons.prems(1) obtain answer variable where
    v: "nth_item variables (length (snd st)) = Inr variable"
    and rest: "cloze_loop ms (replace (''{'' @ m @ ''}'') (''['' @ variable @ '']'') (fst st),
        snd st @ [(variable, answer)]) = Inr st'"
    by (auto simp: bindE_def split: sum.splits)
  from variables_chars [OF nth_item_variables [OF v]] have "NL \<notin> set variable" by auto
  with Cons.prems(2) replace_chars [of "''{'' @ m @ ''}''" "''['' @ variable @ '']''" "fst st"]
  have "NL \<notin> set (replace (''{'' @ m @ ''}'') (''['' @ variable @ '']'') (fst st))"
    by auto
  with Cons.IH [OF rest] show ?case by simp
qed

lemma escape_brackets_result:
  assumes "escape_brackets q = Inr q2"
  shows "\<exists>s s2. q = PStr s \<and> q2 = PStr s2 \<and> CHR ''['' \<notin> set s2 \<and> CHR '']'' \<notin> set s2
           \<and> (NL \<notin> set s \<longrightarrow> NL \<notin> set s2)"
proof -
  from assms obtain s where s: "q = PStr s"
    by (cases q) (simp_all add: escape_brackets_def py_replace_def bindE_def)
  let ?s1 = "replace ''['' lbrack s"
  let ?s2 = "replace '']'' rbrack ?s1"
  from assms s have q2: "q2 = PStr ?s2"
    by (simp add: escape_brackets_def py_replace_def bindE_def)
  have 1: "CHR ''['' \<notin> set ?s1"
    by (rule replace_char_absent) (simp add: lbrack_def)
  have "CHR ''['' \<notin> set ?s2"
    using replace_chars [of "'']''" rbrack ?s1] 1 by (auto simp: rbrack_def)
  moreover have "CHR '']'' \<notin> set ?s2"
    by (rule replace_char_absent) (simp add: rbrack_def)
  moreover have "NL \<notin> set s \<longrightarrow> NL \<notin> set ?s2"
    using replace_chars [of "'']''" rbrack ?s1] replace_chars [of "''[''" lbrack s]
    by (auto simp: rbrack_def lbrack_def)
  ultimately show ?thesis using s q2 by simp
qed


text \<open>No name of a file descriptor has a newline.\<close>

definition names_without_newline :: "pyval list \<Rightarrow> bool" where
  "names_without_newline ds =
     list_all (\<lambda>d. case descriptor_name d of Some n \<Rightarrow> NL \<notin> set n | None \<Rightarrow> True) ds"

lemma attach_files_no_newline:
  "attach_files ds st = (None, st') \<Longrightarrow> fst st = PStr s \<Longrightarrow> NL \<notin> set s \<Longrightarrow>
   names_without_newline ds \<Longrightarrow> \<exists>s'. fst st' = PStr s' \<and> NL \<notin> set s'"
proof (induction ds arbitrary: st s)
  case Nil
  then show ?case by simp
next
  case (Cons d ds)
  from Cons.prems(1) obtain n q' files' where n: "getitem d ''@name'' = Inr (PStr n)"
    and q': "py_iadd (fst st) ('' [[ linked file '' @ n @ '' ]]'') = Inr q'"
    and rest: "attach_files ds (q', files') = (None, st')"
    by (rule attach_files_Cons_None)
  from n Cons.prems(4) have "NL \<notin> set n" and ds: "names_without_newline ds"
    by (simp_all add: names_without_newline_def descriptor_name_def)
  with q' Cons.prems(2,3) have "fst (q', files') = PStr (s @ '' [[ linked file '' @ n @ '' ]]'')"
    and "NL \<notin> set (s @ '' [[ linked file '' @ n @ '' ]]'')"
    by (simp_all add: py_iadd_def)
  from Cons.IH [OF rest this ds] show ?case .
qed

lemma Question_init_html:
  assumes "getitem r ''questiontext'' = Inr qt" and "getitem qt ''@format'' = Inr (PStr ''html'')"
    and "names_without_newline (descriptors qt)" and "Question_init r = Inr (q, fs)"
  shows "\<exists>s. q = PStr s \<and> NL \<notin> set s"
proof -
  from assms(4) obtain qt' t0 fmt q0 where "getitem r ''questiontext'' = Inr qt'"
    and "getitem qt' ''text'' = Inr t0" and "getitem qt' ''@format'' = Inr fmt"
    and c: "cleanstring t0 fmt = Inr q0"
    and a: "attach_files (descriptors qt') (q0, []) = (None, (q, fs))"
    by (rule Question_init_Inr)
  with assms(1,2) have qt: "qt' = qt" and fmt: "fmt = PStr ''html''" by simp_all
  from c fmt obtain s0 where "q0 = PStr s0" "NL \<notin> set s0"
    by (cases t0) (auto simp: cleanstring_def cleanstring_html_no_newline)
  with attach_files_no_newline [OF a [unfolded qt], of s0] assms(3) show ?thesis
    by simp
qed

text \<open>
  Claim C5, amended. Let a question of a supported type be constructed from a record.
  If the text of the record is in the format html and no name of a file descriptor of
  the text has a newline, the text of the question contains no newline. The text of a
  ShortAnswer question contains no square bracket, and the text of a Cloze question
  contains square brackets only as the placeholders of its blanks.
\<close>

theorem text_invariant:
  assumes "map_of constructors ty = Some init" and "init r = Inr x"
  shows "(getitem r ''questiontext'' = Inr qt \<and> getitem qt ''@format'' = Inr (PStr ''html'')
            \<and> names_without_newline (descriptors qt) \<longrightarrow>
          (\<exists>s. question_of x = PStr s \<and> NL \<notin> set s))
       \<and> (ty = ''shortanswer'' \<longrightarrow>
          (\<exists>s. question_of x = PStr s \<and> CHR ''['' \<notin> set s \<and> CHR '']'' \<notin> set s))
       \<and> (ty = ''cloze'' \<longrightarrow> (\<exists>s. question_of x = PStr s \<and> placeholders_only s))"
proof -
  from constructed_parts [OF assms] obtain q fs where q: "Question_init r = Inr (q, fs)"
    and parts: "if ty = ''shortanswer'' then escape_brackets q = Inr (question_of x)
        else if ty = ''cloze''
        then (\<exists>s s' ans. escape_brackets q = Inr (PStr s)
                \<and> cloze_loop (re_findall ''{'' ''}'' s) (s, []) = Inr (s', ans)
                \<and> question_of x = PStr s')
        else question_of x = q"
    by blast
  show ?thesis
  proof (intro conjI impI)
    assume "getitem r ''questiontext'' = Inr qt \<and> getitem qt ''@format'' = Inr (PStr ''html'')
        \<and> names_without_newline (descriptors qt)"
    with Question_init_html [of r qt q fs] q obtain s0 where s0: "q = PStr s0" "NL \<notin> set s0"
      by blast
    consider (short) "ty = ''shortanswer''" | (cloze) "ty \<noteq> ''shortanswer''" "ty = ''cloze''"
      | (plain) "ty \<noteq> ''shortanswer''" "ty \<noteq> ''cloze''"
      by blast
    then show "\<exists>s. question_of x = PStr s \<and> NL \<notin> set s"
    proof cases
      case short
      with parts have "escape_brackets q = Inr (question_of x)" by simp
      from escape_brackets_result [OF this] s0 show ?thesis by auto
    next
      case cloze
      with parts obtain s s' ans where e: "escape_brackets q = Inr (PStr s)"
        and l: "cloze_loop (re_findall ''{'' ''}'' s) (s, []) = Inr (s', ans)"
        and x: "question_of x = PStr s'"
        by auto
      from escape_brackets_result [OF e] s0 have "NL \<notin> set s" by auto
      with cloze_loop_no_newline [OF l] x show ?thesis by simp
    next
      case plain
      with parts s0 show ?thesis by simp
    qed
  next
    assume "ty = ''shortanswer''"
    with parts have "escape_brackets q = Inr (question_of x)" by simp
    from escape_brackets_result [OF this]
    show "\<exists>s. question_of x = PStr s \<and> CHR ''['' \<notin> set s \<and> CHR '']'' \<notin> set s" by auto
  next
    assume "ty = ''cloze''"
    with parts obtain s s' ans where e: "escape_brackets q = Inr (PStr s)"
      and l: "cloze_loop (re_findall ''{'' ''}'' s) (s, []) = Inr (s', ans)"
      and x: "question_of x = PStr s'"
      by auto
    from escape_brackets_result [OF e] have s: "CHR ''['' \<notin> set s" "CHR '']'' \<notin> set s"
      by auto
    then have "placeholders_only s" by (rule placeholders_only_plain)
    moreover from s have "list_all (\<lambda>m. CHR ''['' \<notin> set m \<and> CHR '']'' \<notin> set m)
        (re_findall ''{'' ''}'' s)"
      by (auto simp: list_all_iff dest: re_findall_chars)
    ultimately have "placeholders_only s'"
      using cloze_loop_placeholders [OF l] by simp
    with x show "\<exists>s. question_of x = PStr s \<and> placeholders_only s" by simp
  qed
qed

lemma example_brackets_inits:
  "Cloze_init example_cloze_brackets =
     Inr (Cloze (PStr (''Sum '' @ lbrack @ ''x'' @ rbrack @ ''[a]'')) [] [(''a'', ''42'')])"
  "ShortAnswer_init example_shortanswer_brackets =
     Inr (ShortAnswer (PStr (''a'' @ lbrack @ ''1'' @ rbrack @ ''?'')) [] [PStr ''u''])"
  "Description_init example_description =
     Inr (Description (PStr ''Q [[ linked file diagram.png ]]'') [(PStr ''diagram.png'', ''hello'')])"
  by (simp_all add: example_cloze_brackets_def example_shortanswer_brackets_def
        example_description_def record_defs init_defs py_defs text_defs num_defs example_payloads)

theorem text_invariant_witness:
  "map_of constructors ''cloze'' = Some Cloze_init
   \<and> Cloze_init example_cloze_brackets =
       Inr (Cloze (PStr (''Sum '' @ lbrack @ ''x'' @ rbrack @ ''[a]'')) [] [(''a'', ''42'')])
   \<and> getitem example_cloze_brackets ''questiontext'' =
       Inr (questiontext ''html'' (''Sum [x]'' @ [NL] @ ''{1:SA:=42#wrong}''))
   \<and> getitem (questiontext ''html'' (''Sum [x]'' @ [NL] @ ''{1:SA:=42#wrong}'')) ''@format'' =
       Inr (PStr ''html'')
   \<and> names_without_newline
       (descriptors (questiontext ''html'' (''Sum [x]'' @ [NL] @ ''{1:SA:=42#wrong}'')))
   \<and> NL \<notin> set (''Sum '' @ lbrack @ ''x'' @ rbrack @ ''[a]'')
   \<and> placeholders_only (''Sum '' @ lbrack @ ''x'' @ rbrack @ ''[a]'')
   \<and> map_of constructors ''shortanswer'' = Some ShortAnswer_init
   \<and> ShortAnswer_init example_shortanswer_brackets =
       Inr (ShortAnswer (PStr (''a'' @ lbrack @ ''1'' @ rbrack @ ''?'')) [] [PStr ''u''])
   \<and> CHR ''['' \<notin> set (''a'' @ lbrack @ ''1'' @ rbrack @ ''?'')
   \<and> CHR '']'' \<notin> set (''a'' @ lbrack @ ''1'' @ rbrack @ ''?'')
   \<and> map_of constructors ''description'' = Some Description_init
   \<and> Description_init example_description =
       Inr (Description (PStr ''Q [[ linked file diagram.png ]]'') [(PStr ''diagram.png'', ''hello'')])
   \<and> descriptors (PDict [(''@format'', PStr ''html''), (''text'', PStr ''Q''),
         (''file'', PList [file_descriptor ''diagram.png'' ''base64'' ''aGVsbG8=''])]) =
       [file_descriptor ''diagram.png'' ''base64'' ''aGVsbG8='']
   \<and> names_without_newline [file_descriptor ''diagram.png'' ''base64'' ''aGVsbG8='']
   \<and> NL \<notin> set ''Q [[ linked file diagram.png ]]''"
proof -
  let ?qt = "questiontext ''html'' (''Sum [x]'' @ [NL] @ ''{1:SA:=42#wrong}'')"
  let ?qd = "PDict [(''@format'', PStr ''html''), (''text'', PStr ''Q''),
      (''file'', PList [file_descriptor ''diagram.png'' ''base64'' ''aGVsbG8=''])]"
  have kc: "map_of constructors ''cloze'' = Some Cloze_init"
    and ks: "map_of constructors ''shortanswer'' = Some ShortAnswer_init"
    and kd: "map_of constructors ''description'' = Some Description_init"
    by (simp_all add: constructors_def)
  have h: "getitem example_cloze_brackets ''questiontext'' = Inr ?qt"
    "getitem ?qt ''@format'' = Inr (PStr ''html'')" "names_without_newline (descriptors ?qt)"
    by (simp_all add: example_cloze_brackets_def record_defs py_defs descriptors_def
          names_without_newline_def)
  have hd: "getitem example_description ''questiontext'' = Inr ?qd"
    "getitem ?qd ''@format'' = Inr (PStr ''html'')"
    "descriptors ?qd = [file_descriptor ''diagram.png'' ''base64'' ''aGVsbG8='']"
    "names_without_newline [file_descriptor ''diagram.png'' ''base64'' ''aGVsbG8='']"
    by (simp_all add: example_description_def example_with_files_def py_defs descriptors_def
          names_without_newline_def example_descriptors)
  note c = text_invariant [OF kc example_brackets_inits(1), of ?qt]
  note s = text_invariant [OF ks example_brackets_inits(2)]
  note d = text_invariant [OF kd example_brackets_inits(3), of ?qd]
  from c h have "NL \<notin> set (''Sum '' @ lbrack @ ''x'' @ rbrack @ ''[a]'')"
    by simp
  moreover from c have "placeholders_only (''Sum '' @ lbrack @ ''x'' @ rbrack @ ''[a]'')"
    by simp
  moreover from s have "CHR ''['' \<notin> set (''a'' @ lbrack @ ''1'' @ rbrack @ ''?'')
      \<and> CHR '']'' \<notin> set (''a'' @ lbrack @ ''1'' @ rbrack @ ''?'')"
    by simp
  moreover from d hd have "NL \<notin> set ''Q [[ linked file diagram.png ]]''"
    by simp
  ultimately show ?thesis using kc ks kd h hd example_brackets_inits by simp
qed

text \<open>A description in the format html with a file whose name has a newline.\<close>

definition example_description_newline :: pyval where
  "example_description_newline =
     example_with_files (file_descriptor (''a'' @ [NL] @ ''b'') ''none'' [])"

text \<open>
  The claim as it stands fails at a multiple choice question whose text has square
  brackets, which stay in the text, at a description in the format
  \<open>moodle_auto_format\<close> whose text has a newline, which stays too, and at a description
  in the format html with a file whose name has a newline, which comes into the text
  with the marker of the file.
\<close>

theorem text_invariant_counterexample:
  "MultiChoice_init example_multichoice_brackets =
     Inr (MultiChoice (PStr ''x[1]'') [] [(PStr ''y'', ''correct'')])
   \<and> Description_init example_description_auto = Inr (Description (PStr (''a'' @ [NL] @ ''b'')) [])
   \<and> Description_init example_description_newline =
       Inr (Description (PStr (''Q [[ linked file a'' @ [NL] @ ''b ]]'')) [])"
  by (simp add: example_multichoice_brackets_def example_description_auto_def
        example_description_newline_def record_defs init_defs py_defs text_defs num_defs)

section \<open>The conversion of delimiters\<close>

text \<open>
  No match of the literal \<open>p\<close> begins within \<open>u\<close> when the text is \<open>u\<close> followed by
  \<open>r\<close>: the scan of a substitution passes over \<open>u\<close>.
\<close>

fun no_start :: "string \<Rightarrow> string \<Rightarrow> string \<Rightarrow> bool" where
  "no_start p [] r = True"
| "no_start p (c # cs) r = (\<not> prefix p (c # cs @ r) \<and> no_start p cs r)"

lemma re_sub_no_start:
  "no_start opn u r \<Longrightarrow> re_sub opn cl f (u @ r) = u @ re_sub opn cl f r"
  by (induction u) simp_all

lemma replace_no_start:
  "no_start old u r \<Longrightarrow> replace old new (u @ r) = u @ replace old new r"
  by (induction u) simp_all

lemma no_start_append:
  "no_start p (u @ v) r \<longleftrightarrow> no_start p u (v @ r) \<and> no_start p v r"
  by (induction u) auto

lemma no_start_first: "hd p \<notin> set u \<Longrightarrow> p \<noteq> [] \<Longrightarrow> no_start p u r"
  by (induction u) (auto simp: prefix_Cons neq_Nil_conv)

lemma not_prefix_char: "c \<notin> set p \<Longrightarrow> p \<noteq> [] \<Longrightarrow> \<not> prefix p (c # r)"
  by (cases p) auto

text \<open>A match that begins in \<open>u\<close> does not reach over a character that the pattern lacks.\<close>

lemma prefix_boundary:
  assumes "c \<notin> set p" and "prefix p (u @ c # r)"
  shows "prefix p u"
proof -
  from assms(2) consider "prefix p u" | w where "p = u @ w" "prefix w (c # r)"
    using prefix_append [of p u "c # r"] by auto
  then show ?thesis
  proof cases
    case 1
    then show ?thesis .
  next
    case 2
    show ?thesis
    proof (cases w)
      case Nil
      with 2 show ?thesis by simp
    next
      case (Cons d ds)
      with 2 have "d = c" by simp
      with 2(1) Cons assms(1) show ?thesis by simp
    qed
  qed
qed

lemma no_start_skip:
  "c \<notin> set p \<Longrightarrow> p \<noteq> [] \<Longrightarrow> \<not> occurs p u \<Longrightarrow> no_start p (u @ [c]) r"
proof (induction u)
  case Nil
  then show ?case by (simp add: not_prefix_char)
next
  case (Cons a u)
  from Cons.prems have np: "\<not> prefix p (a # u)" and no: "\<not> occurs p u" by simp_all
  from np prefix_boundary [OF Cons.prems(1), of "a # u" r]
  have "\<not> prefix p ((a # u) @ c # r)" by blast
  with Cons.IH [OF Cons.prems(1,2) no] show ?case by simp
qed

lemma no_start_two:
  "a \<noteq> b \<Longrightarrow> \<not> occurs [a, b] u \<Longrightarrow> no_start [a, b] u (a # r)"
proof (induction u)
  case Nil
  show ?case by simp
next
  case (Cons c u)
  from Cons.prems have np: "\<not> prefix [a, b] (c # u)" and no: "\<not> occurs [a, b] u" by simp_all
  from np Cons.prems(1) have "\<not> prefix [a, b] (c # u @ a # r)"
    by (cases u) auto
  with Cons.IH [OF Cons.prems(1) no] show ?case by simp
qed

lemma no_start_Nil: "\<not> occurs p u \<Longrightarrow> p \<noteq> [] \<Longrightarrow> no_start p u []"
  by (induction u) auto

lemma find_close_no_start:
  "NL \<notin> set g \<Longrightarrow> cl \<noteq> [] \<Longrightarrow> no_start cl g (cl @ r) \<Longrightarrow>
   find_close cl (g @ cl @ r) = Some (g, r)"
proof (induction g)
  case Nil
  then obtain c cs where "cl = c # cs" by (cases cl) auto
  then show ?case by simp
next
  case (Cons a g)
  then show ?case by auto
qed

lemma find_close_append:
  "find_close [k] v = Some (g, r) \<Longrightarrow> find_close [k] (v @ w) = Some (g, r @ w)"
proof (induction v arbitrary: g)
  case Nil
  then show ?case by simp
next
  case (Cons c cs)
  show ?case
  proof (cases "c = k")
    case True
    with Cons.prems show ?thesis by simp
  next
    case False
    with Cons.prems obtain g' where "find_close [k] cs = Some (g', r)" "g = c # g'" "c \<noteq> NL"
      by (auto split: if_splits option.splits)
    with Cons.IH [of g'] False show ?thesis by simp
  qed
qed

text \<open>
  Every match of \<open>op (.*?) cl\<close> that the scan of \<open>s\<close> begins is completed within
  \<open>s\<close>: no opener is left without its closer.
\<close>

function closed_matches :: "string \<Rightarrow> string \<Rightarrow> string \<Rightarrow> bool" where
  "closed_matches opn cl [] = True"
| "closed_matches opn cl (c # cs) =
     (if opn \<noteq> [] \<and> prefix opn (c # cs)
      then (case find_close cl (drop (length opn) (c # cs)) of
              Some (g, r) \<Rightarrow> closed_matches opn cl r
            | None \<Rightarrow> False)
      else closed_matches opn cl cs)"
  by pat_completeness auto
termination
proof (relation "measure (\<lambda>(opn, cl, s). length s)")
  show "wf (measure (\<lambda>(opn, cl, s). length s))" by simp
next
  fix opn :: string and cl c cs x2 g r
  assume "opn \<noteq> [] \<and> prefix opn (c # cs)"
    and "find_close cl (drop (length opn) (c # cs)) = Some x2"
    and "(g, r) = x2"
  then have "length r \<le> length (drop (length opn) (c # cs))" and "opn \<noteq> []"
    by (auto dest: find_close_length)
  then show "((opn, cl, r), opn, cl, c # cs) \<in> measure (\<lambda>(opn, cl, s). length s)"
    by (cases opn) auto
qed auto

lemma re_sub_closed:
  "closed_matches opn [k] u \<Longrightarrow> c \<notin> set opn \<Longrightarrow>
   re_sub opn [k] f (u @ c # r) = re_sub opn [k] f u @ c # re_sub opn [k] f r"
proof (induction opn "[k]" u rule: closed_matches.induct)
  case (1 opn)
  then show ?case by (cases opn) auto
next
  case (2 opn a cs)
  show ?case
  proof (cases "opn \<noteq> [] \<and> prefix opn (a # cs)")
    case True
    with 2(3) obtain g r' where fc: "find_close [k] (drop (length opn) (a # cs)) = Some (g, r')"
      and cl: "closed_matches opn [k] r'"
      by (auto split: option.splits)
    from True have len: "length opn \<le> length (a # cs)" by (intro prefix_length_le) simp
    from True have p: "prefix opn (a # cs @ c # r)"
      using prefix_prefix [of opn "a # cs" "c # r"] by simp
    from len have "drop (length opn) (a # cs @ c # r) = drop (length opn) (a # cs) @ c # r"
      using drop_append [of "length opn" "a # cs" "c # r"] by simp
    with find_close_append [OF fc, of "c # r"]
    have fc': "find_close [k] (drop (length opn) (a # cs @ c # r)) = Some (g, r' @ c # r)"
      by simp
    from 2(1) [OF True fc refl cl 2(4)]
    have "re_sub opn [k] f (r' @ c # r) = re_sub opn [k] f r' @ c # re_sub opn [k] f r" .
    with True p fc fc' show ?thesis by simp
  next
    case False
    with 2(3) have cl: "closed_matches opn [k] cs" by simp
    from False prefix_boundary [OF 2(4), of "a # cs" r]
    have n: "\<not> (opn \<noteq> [] \<and> prefix opn (a # cs @ c # r))" by auto
    have e1: "re_sub opn [k] f (a # cs @ c # r) = a # re_sub opn [k] f (cs @ c # r)"
      by (subst re_sub.simps(2)) (rule if_not_P [OF n])
    have e2: "re_sub opn [k] f (a # cs) = a # re_sub opn [k] f cs"
      by (subst re_sub.simps(2)) (rule if_not_P [OF False])
    from 2(2) [OF False cl 2(4)]
    have "re_sub opn [k] f (cs @ c # r) = re_sub opn [k] f cs @ c # re_sub opn [k] f r" .
    then show ?thesis
      by (simp only: append_Cons e1 e2)
  qed
qed

lemma replace_boundary:
  "c \<notin> set old \<Longrightarrow> replace old new (u @ c # r) = replace old new u @ c # replace old new r"
proof (induction old new u rule: replace.induct)
  case (1 old new)
  then show ?case by (cases old) auto
next
  case (2 old new a cs)
  show ?case
  proof (cases "old \<noteq> [] \<and> prefix old (a # cs)")
    case True
    then have len: "length old \<le> length (a # cs)" by (intro prefix_length_le) simp
    from True have p: "prefix old (a # cs @ c # r)"
      using prefix_prefix [of old "a # cs" "c # r"] by simp
    from len have "drop (length old) (a # cs @ c # r) = drop (length old) (a # cs) @ c # r"
      using drop_append [of "length old" "a # cs" "c # r"] by simp
    with 2(1) [OF True 2(3)] True p show ?thesis by simp
  next
    case False
    from False prefix_boundary [OF 2(3), of "a # cs" r]
    have n: "\<not> (old \<noteq> [] \<and> prefix old (a # cs @ c # r))" by auto
    have e1: "replace old new (a # cs @ c # r) = a # replace old new (cs @ c # r)"
      by (subst replace.simps(2)) (rule if_not_P [OF n])
    have e2: "replace old new (a # cs) = a # replace old new cs"
      by (subst replace.simps(2)) (rule if_not_P [OF False])
    from 2(2) [OF False 2(3)] show ?thesis
      by (simp only: append_Cons e1 e2)
  qed
qed

text \<open>
  A text is plain when it has no dollar sign, no opener \<open>\\(\<close> or \<open>\\[\<close> and none of
  the two paragraph patterns. It is free of delimiters when it has no dollar sign and
  no opener, and its tags are closed when every paragraph tag with attributes that
  begins in it ends in it.
\<close>

definition plain :: "string \<Rightarrow> bool" where
  "plain s = (CHR ''$'' \<notin> set s \<and> \<not> occurs [BSL, CHR ''(''] s \<and> \<not> occurs [BSL, CHR ''[''] s
              \<and> \<not> occurs ''<p '' s \<and> \<not> occurs ''<p></p>'' s)"

definition delimiter_free :: "string \<Rightarrow> bool" where
  "delimiter_free s =
     (CHR ''$'' \<notin> set s \<and> \<not> occurs [BSL, CHR ''(''] s \<and> \<not> occurs [BSL, CHR ''[''] s)"

definition tags_closed :: "string \<Rightarrow> bool" where
  "tags_closed s = closed_matches ''<p '' ''>'' s"

text \<open>The three pairs of delimiters that the html branch converts.\<close>

definition delimiters :: "(string \<times> string) list" where
  "delimiters = [(''$'', ''$''), ([BSL, CHR ''(''], [BSL, CHR '')'']), ([BSL, CHR ''[''], [BSL, CHR '']''])]"

lemma no_start_before:
  "c \<notin> set p \<Longrightarrow> p \<noteq> [] \<Longrightarrow> \<not> occurs p u \<Longrightarrow> no_start p u (c # r)"
  using no_start_skip [of c p u r] by (simp add: no_start_append)

lemma no_start_converted:
  assumes "CHR ''$'' \<notin> set p" and "p \<noteq> []" and "\<not> occurs p u" and "\<not> occurs p v"
  shows "no_start p (u @ wrap_dollars v) r"
  using assms
  by (simp add: wrap_dollars_def no_start_append no_start_before not_prefix_char)

lemma pass_sub:
  assumes "CHR ''$'' \<notin> set p" and "p \<noteq> []" and "\<not> occurs p u" and "\<not> occurs p v"
  shows "re_sub p cl f (u @ wrap_dollars v @ r) = u @ wrap_dollars v @ re_sub p cl f r"
  using re_sub_no_start [OF no_start_converted [OF assms], of cl f r] by simp

lemma convert_here:
  assumes "NL \<notin> set v" and "opn \<noteq> []" and "cl \<noteq> []" and "no_start cl v (cl @ r)"
  shows "re_sub opn cl f (opn @ v @ cl @ r) = f v @ re_sub opn cl f r"
proof -
  from assms(2) obtain c cs where opn: "opn = c # cs" by (cases opn) auto
  have "find_close cl (drop (length opn) (opn @ v @ cl @ r)) = Some (v, r)"
    by (simp add: find_close_no_start [OF assms(1,3,4)])
  with opn show ?thesis
    using re_sub.simps(2) [of opn cl f c "cs @ v @ cl @ r"] by simp
qed

text \<open>The two substitutions of paragraphs, on their own.\<close>

definition paragraph_stages :: "string \<Rightarrow> string" where
  "paragraph_stages s = replace ''<p></p>'' [] (re_sub ''<p '' ''>'' (\<lambda>g. ''<p>'') s)"

lemma pass_paragraphs:
  assumes "tags_closed u" and "\<not> occurs ''<p '' v" and "\<not> occurs ''<p></p>'' v"
  shows "paragraph_stages (u @ wrap_dollars v @ r) =
           paragraph_stages u @ wrap_dollars v @ paragraph_stages r"
proof -
  let ?f = "\<lambda>g :: string. ''<p>''"
  let ?m = "CHR ''$'' # v @ ''$$''"
  have w: "u @ wrap_dollars v @ r = u @ CHR ''$'' # (?m @ r)" for u r
    by (simp add: wrap_dollars_def)
  have n4: "no_start ''<p '' ?m r" and n5: "no_start ''<p></p>'' ?m r" for r
    using no_start_converted [of "''<p ''" "[]" v r] no_start_converted [of "''<p></p>''" "[]" v r]
      assms(2,3)
    by (simp_all add: wrap_dollars_def)
  have "re_sub ''<p '' ''>'' ?f (u @ wrap_dollars v @ r) =
      re_sub ''<p '' ''>'' ?f u @ CHR ''$'' # re_sub ''<p '' ''>'' ?f (?m @ r)"
    unfolding w using assms(1) by (intro re_sub_closed) (simp_all add: tags_closed_def)
  also have "re_sub ''<p '' ''>'' ?f (?m @ r) = ?m @ re_sub ''<p '' ''>'' ?f r"
    by (rule re_sub_no_start [OF n4])
  finally have 4: "re_sub ''<p '' ''>'' ?f (u @ wrap_dollars v @ r) =
      re_sub ''<p '' ''>'' ?f u @ wrap_dollars v @ re_sub ''<p '' ''>'' ?f r"
    by (simp add: wrap_dollars_def)
  have "replace ''<p></p>'' [] (re_sub ''<p '' ''>'' ?f u @ wrap_dollars v @ re_sub ''<p '' ''>'' ?f r) =
      replace ''<p></p>'' [] (re_sub ''<p '' ''>'' ?f u) @ CHR ''$'' #
        replace ''<p></p>'' [] (?m @ re_sub ''<p '' ''>'' ?f r)"
    unfolding w by (intro replace_boundary) simp
  also have "replace ''<p></p>'' [] (?m @ re_sub ''<p '' ''>'' ?f r) =
      ?m @ replace ''<p></p>'' [] (re_sub ''<p '' ''>'' ?f r)"
    by (rule replace_no_start [OF n5])
  finally have 5: "replace ''<p></p>'' []
        (re_sub ''<p '' ''>'' ?f u @ wrap_dollars v @ re_sub ''<p '' ''>'' ?f r) =
      replace ''<p></p>'' [] (re_sub ''<p '' ''>'' ?f u) @ wrap_dollars v @
        replace ''<p></p>'' [] (re_sub ''<p '' ''>'' ?f r)"
    by (simp add: wrap_dollars_def)
  show ?thesis
    unfolding paragraph_stages_def 4 5 ..
qed

text \<open>The substitutions of the html branch, behind the removal of the newlines.\<close>

definition html_stages :: "string \<Rightarrow> string" where
  "html_stages s =
     replace ''<p></p>'' []
       (re_sub ''<p '' ''>'' (\<lambda>g. ''<p>'')
         (re_sub [BSL, CHR ''[''] [BSL, CHR '']''] wrap_dollars
           (re_sub [BSL, CHR ''(''] [BSL, CHR '')''] wrap_dollars
             (re_sub ''$'' ''$'' wrap_dollars s))))"

lemma cleanstring_html_stages: "cleanstring_html t = html_stages (strip_newlines t)"
  by (simp add: cleanstring_html_def html_stages_def Let_def)

lemma html_stages_paragraphs:
  "html_stages s =
     paragraph_stages
       (re_sub [BSL, CHR ''[''] [BSL, CHR '']''] wrap_dollars
         (re_sub [BSL, CHR ''(''] [BSL, CHR '')''] wrap_dollars
           (re_sub ''$'' ''$'' wrap_dollars s)))"
  by (simp add: html_stages_def paragraph_stages_def)

lemma html_stages_free:
  assumes "delimiter_free u"
  shows "html_stages u = paragraph_stages u"
proof -
  from assms have d: "CHR ''$'' \<notin> set u" and p: "\<not> occurs [BSL, CHR ''(''] u"
    and b: "\<not> occurs [BSL, CHR ''[''] u"
    by (simp_all add: delimiter_free_def)
  have "re_sub ''$'' ''$'' wrap_dollars (u @ []) = u @ re_sub ''$'' ''$'' wrap_dollars []"
    by (rule re_sub_no_start) (simp add: no_start_first d)
  moreover have "re_sub [BSL, CHR ''(''] [BSL, CHR '')''] wrap_dollars (u @ []) =
      u @ re_sub [BSL, CHR ''(''] [BSL, CHR '')''] wrap_dollars []"
    by (rule re_sub_no_start) (simp add: no_start_Nil p)
  moreover have "re_sub [BSL, CHR ''[''] [BSL, CHR '']''] wrap_dollars (u @ []) =
      u @ re_sub [BSL, CHR ''[''] [BSL, CHR '']''] wrap_dollars []"
    by (rule re_sub_no_start) (simp add: no_start_Nil b)
  ultimately show ?thesis
    by (simp add: html_stages_paragraphs)
qed

lemma later_stages:
  assumes "delimiter_free u" and "plain v"
  shows "re_sub [BSL, CHR ''[''] cl f (u @ wrap_dollars v @ r) =
           u @ wrap_dollars v @ re_sub [BSL, CHR ''[''] cl f r"
    and "re_sub [BSL, CHR ''(''] cl f (u @ wrap_dollars v @ r) =
           u @ wrap_dollars v @ re_sub [BSL, CHR ''(''] cl f r"
  using assms
  by (simp_all add: plain_def delimiter_free_def pass_sub)

lemma convert_dollar:
  assumes "delimiter_free u" and "tags_closed u" and "plain v" and "NL \<notin> set v"
  shows "html_stages (u @ ''$'' @ v @ ''$'' @ w) = paragraph_stages u @ wrap_dollars v @ html_stages w"
proof -
  from assms(1,3) have du: "CHR ''$'' \<notin> set u" and dv: "CHR ''$'' \<notin> set v"
    and pv: "\<not> occurs ''<p '' v" "\<not> occurs ''<p></p>'' v"
    by (simp_all add: plain_def delimiter_free_def)
  have "re_sub ''$'' ''$'' wrap_dollars (u @ ''$'' @ v @ ''$'' @ w) =
      u @ re_sub ''$'' ''$'' wrap_dollars (''$'' @ v @ ''$'' @ w)"
    by (rule re_sub_no_start) (simp add: no_start_first du)
  also have "re_sub ''$'' ''$'' wrap_dollars (''$'' @ v @ ''$'' @ w) =
      wrap_dollars v @ re_sub ''$'' ''$'' wrap_dollars w"
    by (rule convert_here [OF assms(4)]) (simp_all add: no_start_first dv)
  finally show ?thesis
    by (simp only: html_stages_paragraphs later_stages [OF assms(1,3)]
          pass_paragraphs [OF assms(2) pv])
qed

lemma convert_paren:
  assumes "delimiter_free u" and "tags_closed u" and "plain v" and "NL \<notin> set v"
    and "\<not> occurs [BSL, CHR '')''] v"
  shows "html_stages (u @ [BSL, CHR ''(''] @ v @ [BSL, CHR '')''] @ w) =
           paragraph_stages u @ wrap_dollars v @ html_stages w"
proof -
  let ?w1 = "re_sub ''$'' ''$'' wrap_dollars w"
  from assms(1,3) have du: "CHR ''$'' \<notin> set u" and dv: "CHR ''$'' \<notin> set v"
    and pu: "\<not> occurs [BSL, CHR ''(''] u"
    and pv: "\<not> occurs ''<p '' v" "\<not> occurs ''<p></p>'' v"
    by (simp_all add: plain_def delimiter_free_def)
  have "re_sub ''$'' ''$'' wrap_dollars ((u @ [BSL, CHR ''(''] @ v @ [BSL, CHR '')'']) @ w) =
      (u @ [BSL, CHR ''(''] @ v @ [BSL, CHR '')'']) @ ?w1"
    by (rule re_sub_no_start) (simp add: no_start_first du dv)
  then have 1: "re_sub ''$'' ''$'' wrap_dollars (u @ [BSL, CHR ''(''] @ v @ [BSL, CHR '')''] @ w) =
      u @ [BSL, CHR ''(''] @ v @ [BSL, CHR '')''] @ ?w1"
    by simp
  have "re_sub [BSL, CHR ''(''] [BSL, CHR '')''] wrap_dollars
          (u @ [BSL, CHR ''(''] @ v @ [BSL, CHR '')''] @ ?w1) =
      u @ re_sub [BSL, CHR ''(''] [BSL, CHR '')''] wrap_dollars
          ([BSL, CHR ''(''] @ v @ [BSL, CHR '')''] @ ?w1)"
    by (rule re_sub_no_start) (simp add: no_start_two pu)
  also have "re_sub [BSL, CHR ''(''] [BSL, CHR '')''] wrap_dollars
          ([BSL, CHR ''(''] @ v @ [BSL, CHR '')''] @ ?w1) =
      wrap_dollars v @ re_sub [BSL, CHR ''(''] [BSL, CHR '')''] wrap_dollars ?w1"
    by (rule convert_here [OF assms(4)]) (simp_all add: no_start_two assms(5))
  finally show ?thesis
    by (simp only: html_stages_paragraphs 1 later_stages [OF assms(1,3)]
          pass_paragraphs [OF assms(2) pv])
qed

lemma convert_bracket:
  assumes "delimiter_free u" and "tags_closed u" and "plain v" and "NL \<notin> set v"
    and "\<not> occurs [BSL, CHR '']''] v"
  shows "html_stages (u @ [BSL, CHR ''[''] @ v @ [BSL, CHR '']''] @ w) =
           paragraph_stages u @ wrap_dollars v @ html_stages w"
proof -
  let ?w1 = "re_sub ''$'' ''$'' wrap_dollars w"
  let ?w2 = "re_sub [BSL, CHR ''(''] [BSL, CHR '')''] wrap_dollars ?w1"
  from assms(1,3) have du: "CHR ''$'' \<notin> set u" and dv: "CHR ''$'' \<notin> set v"
    and pu: "\<not> occurs [BSL, CHR ''(''] u" and pv: "\<not> occurs [BSL, CHR ''(''] v"
    and bu: "\<not> occurs [BSL, CHR ''[''] u"
    and tv: "\<not> occurs ''<p '' v" "\<not> occurs ''<p></p>'' v"
    by (simp_all add: plain_def delimiter_free_def)
  have "re_sub ''$'' ''$'' wrap_dollars ((u @ [BSL, CHR ''[''] @ v @ [BSL, CHR '']'']) @ w) =
      (u @ [BSL, CHR ''[''] @ v @ [BSL, CHR '']'']) @ ?w1"
    by (rule re_sub_no_start) (simp add: no_start_first du dv)
  then have 1: "re_sub ''$'' ''$'' wrap_dollars (u @ [BSL, CHR ''[''] @ v @ [BSL, CHR '']''] @ w) =
      u @ [BSL, CHR ''[''] @ v @ [BSL, CHR '']''] @ ?w1"
    by simp
  have "re_sub [BSL, CHR ''(''] [BSL, CHR '')''] wrap_dollars
          ((u @ [BSL, CHR ''[''] @ v @ [BSL, CHR '']'']) @ ?w1) =
      (u @ [BSL, CHR ''[''] @ v @ [BSL, CHR '']'']) @ ?w2"
    by (rule re_sub_no_start) (simp add: no_start_append no_start_two pu pv)
  then have 2: "re_sub [BSL, CHR ''(''] [BSL, CHR '')''] wrap_dollars
          (u @ [BSL, CHR ''[''] @ v @ [BSL, CHR '']''] @ ?w1) =
      u @ [BSL, CHR ''[''] @ v @ [BSL, CHR '']''] @ ?w2"
    by simp
  have "re_sub [BSL, CHR ''[''] [BSL, CHR '']''] wrap_dollars
          (u @ [BSL, CHR ''[''] @ v @ [BSL, CHR '']''] @ ?w2) =
      u @ re_sub [BSL, CHR ''[''] [BSL, CHR '']''] wrap_dollars
          ([BSL, CHR ''[''] @ v @ [BSL, CHR '']''] @ ?w2)"
    by (rule re_sub_no_start) (simp add: no_start_two bu)
  also have "re_sub [BSL, CHR ''[''] [BSL, CHR '']''] wrap_dollars
          ([BSL, CHR ''[''] @ v @ [BSL, CHR '']''] @ ?w2) =
      wrap_dollars v @ re_sub [BSL, CHR ''[''] [BSL, CHR '']''] wrap_dollars ?w2"
    by (rule convert_here [OF assms(4)]) (simp_all add: no_start_two assms(5))
  finally show ?thesis
    by (simp only: html_stages_paragraphs 1 2 later_stages [OF assms(1,3)]
          pass_paragraphs [OF assms(2) tv])
qed

text \<open>
  Claim C9, amended. Let a text in the format html be \<open>pre\<close>, then a formula \<open>x\<close> between
  one of the three pairs of delimiters, then \<open>post\<close>. Let \<open>x\<close>, newlines removed, be
  not empty and plain and not contain the closing delimiter; let \<open>pre\<close>, newlines
  removed, have no dollar sign and no opener, and let every paragraph tag with
  attributes that begins in it end in it. Then normalization yields the normalization
  of \<open>pre\<close>, which is \<open>pre\<close> with its newlines removed and its paragraphs simplified,
  then \<open>x\<close> without its newlines between double dollars, in its place, then the
  normalization of \<open>post\<close> alone: the formula ends at the first closing delimiter,
  nothing before it is taken for a formula, and the scan goes on behind it. The
  result has no newline.
\<close>

theorem delimiter_conversion:
  assumes "(opn, cl) \<in> set delimiters"
    and "delimiter_free (strip_newlines pre)" and "tags_closed (strip_newlines pre)"
    and "plain (strip_newlines x)" and "strip_newlines x \<noteq> []"
    and "\<not> occurs cl (strip_newlines x)"
  shows "cleanstring (PStr (pre @ opn @ x @ cl @ post)) (PStr ''html'') =
           Inr (PStr (cleanstring_html pre @ ''$$'' @ strip_newlines x @ ''$$'' @ cleanstring_html post))
       \<and> cleanstring_html pre = paragraph_stages (strip_newlines pre)
       \<and> NL \<notin> set (cleanstring_html (pre @ opn @ x @ cl @ post))"
proof -
  have nl: "NL \<notin> set (strip_newlines x)" by (simp add: strip_newlines_def)
  have pre: "cleanstring_html pre = paragraph_stages (strip_newlines pre)"
    by (simp add: cleanstring_html_stages html_stages_free [OF assms(2)])
  from assms(1) have "strip_newlines (pre @ opn @ x @ cl @ post) =
      strip_newlines pre @ opn @ strip_newlines x @ cl @ strip_newlines post"
    by (auto simp: delimiters_def strip_newlines_def)
  moreover from assms(1) have "html_stages
      (strip_newlines pre @ opn @ strip_newlines x @ cl @ strip_newlines post) =
      paragraph_stages (strip_newlines pre) @ wrap_dollars (strip_newlines x) @
        html_stages (strip_newlines post)"
    using convert_dollar [OF assms(2,3,4) nl] convert_paren [OF assms(2,3,4) nl]
      convert_bracket [OF assms(2,3,4) nl] assms(6)
    by (auto simp: delimiters_def)
  ultimately have "cleanstring_html (pre @ opn @ x @ cl @ post) =
      cleanstring_html pre @ ''$$'' @ strip_newlines x @ ''$$'' @ cleanstring_html post"
    by (simp add: cleanstring_html_stages wrap_dollars_def html_stages_free [OF assms(2)])
  then have "cleanstring (PStr (pre @ opn @ x @ cl @ post)) (PStr ''html'') =
      Inr (PStr (cleanstring_html pre @ ''$$'' @ strip_newlines x @ ''$$'' @ cleanstring_html post))"
    by (simp add: cleanstring_def)
  moreover have "NL \<notin> set (cleanstring_html (pre @ opn @ x @ cl @ post))"
    by (rule cleanstring_html_no_newline)
  ultimately show ?thesis using pre by (intro conjI)
qed

lemma example_plain:
  "delimiter_free (strip_newlines (''<p dir=ltr>Let'' @ [NL] @ '' ''))"
  "tags_closed (strip_newlines (''<p dir=ltr>Let'' @ [NL] @ '' ''))"
  "plain (strip_newlines ''a+b'')" "strip_newlines ''a+b'' \<noteq> []"
  "delimiter_free (strip_newlines [])" "tags_closed (strip_newlines [])"
  "plain (strip_newlines (''x'' @ [NL] @ ''^2''))" "strip_newlines (''x'' @ [NL] @ ''^2'') \<noteq> []"
  by (simp_all add: plain_def delimiter_free_def tags_closed_def strip_newlines_def)

theorem delimiter_conversion_witness:
  "([BSL, CHR ''(''], [BSL, CHR '')'']) \<in> set delimiters
   \<and> delimiter_free (strip_newlines (''<p dir=ltr>Let'' @ [NL] @ '' ''))
   \<and> tags_closed (strip_newlines (''<p dir=ltr>Let'' @ [NL] @ '' ''))
   \<and> plain (strip_newlines ''a+b'') \<and> strip_newlines ''a+b'' \<noteq> []
   \<and> \<not> occurs [BSL, CHR '')''] (strip_newlines ''a+b'')
   \<and> cleanstring
         (PStr ((''<p dir=ltr>Let'' @ [NL] @ '' '') @ [BSL, CHR ''(''] @ ''a+b'' @ [BSL, CHR '')'']
            @ ''</p> and $c$ cost 5$''))
         (PStr ''html'') =
       Inr (PStr ''<p>Let $$a+b$$</p> and $$c$$ cost 5$'')
   \<and> (''$'', ''$'') \<in> set delimiters
   \<and> delimiter_free (strip_newlines []) \<and> tags_closed (strip_newlines [])
   \<and> plain (strip_newlines (''x'' @ [NL] @ ''^2'')) \<and> strip_newlines (''x'' @ [NL] @ ''^2'') \<noteq> []
   \<and> \<not> occurs ''$'' (strip_newlines (''x'' @ [NL] @ ''^2''))
   \<and> cleanstring (PStr ([] @ ''$'' @ (''x'' @ [NL] @ ''^2'') @ ''$'' @ ''$'')) (PStr ''html'') =
       Inr (PStr ''$$x^2$$$'')"
proof -
  have d: "([BSL, CHR ''(''], [BSL, CHR '')'']) \<in> set delimiters" "(''$'', ''$'') \<in> set delimiters"
    by (simp_all add: delimiters_def)
  have o: "\<not> occurs [BSL, CHR '')''] (strip_newlines ''a+b'')"
    "\<not> occurs ''$'' (strip_newlines (''x'' @ [NL] @ ''^2''))"
    by (simp_all add: strip_newlines_def)
  have "cleanstring
         (PStr ((''<p dir=ltr>Let'' @ [NL] @ '' '') @ [BSL, CHR ''(''] @ ''a+b'' @ [BSL, CHR '')'']
            @ ''</p> and $c$ cost 5$''))
         (PStr ''html'') =
       Inr (PStr (cleanstring_html (''<p dir=ltr>Let'' @ [NL] @ '' '') @ ''$$'' @ strip_newlines ''a+b''
         @ ''$$'' @ cleanstring_html ''</p> and $c$ cost 5$''))"
    by (rule conjunct1 [OF delimiter_conversion [OF d(1) example_plain(1,2,3,4) o(1)]])
  moreover have "cleanstring_html (''<p dir=ltr>Let'' @ [NL] @ '' '') @ ''$$'' @ strip_newlines ''a+b''
         @ ''$$'' @ cleanstring_html ''</p> and $c$ cost 5$'' = ''<p>Let $$a+b$$</p> and $$c$$ cost 5$''"
    by (simp add: text_defs)
  ultimately have 1: "cleanstring
         (PStr ((''<p dir=ltr>Let'' @ [NL] @ '' '') @ [BSL, CHR ''(''] @ ''a+b'' @ [BSL, CHR '')'']
            @ ''</p> and $c$ cost 5$''))
         (PStr ''html'') = Inr (PStr ''<p>Let $$a+b$$</p> and $$c$$ cost 5$'')"
    by (simp only:)
  have "cleanstring (PStr ([] @ ''$'' @ (''x'' @ [NL] @ ''^2'') @ ''$'' @ ''$'')) (PStr ''html'') =
       Inr (PStr (cleanstring_html [] @ ''$$'' @ strip_newlines (''x'' @ [NL] @ ''^2'') @ ''$$''
         @ cleanstring_html ''$''))"
    by (rule conjunct1 [OF delimiter_conversion [OF d(2) example_plain(5,6,7,8) o(2)]])
  moreover have "cleanstring_html [] @ ''$$'' @ strip_newlines (''x'' @ [NL] @ ''^2'') @ ''$$''
         @ cleanstring_html ''$'' = ''$$x^2$$$''"
    by (simp add: text_defs)
  ultimately have 2: "cleanstring (PStr ([] @ ''$'' @ (''x'' @ [NL] @ ''^2'') @ ''$'' @ ''$'')) (PStr ''html'') =
       Inr (PStr ''$$x^2$$$'')"
    by (simp only:)
  from d o example_plain 1 2 show ?thesis
    by (simp only: simp_thms)
qed

text \<open>
  The claim as it stands fails at the text \<open>5$ and $x$\<close>: the dollar that opens the
  formula \<open>$x$\<close> is taken as the end of a match begun at the first dollar, and the
  formula is not converted. It fails too at the text \<open><p $a>b$\<close>, where the formula
  \<open>$a>b$\<close> is converted and then cut by the paragraph tag that begins before it.
\<close>

theorem delimiter_conversion_counterexample:
  "cleanstring (PStr ''5$ and $x$'') (PStr ''html'') = Inr (PStr ''5$$ and $$x$'')
   \<and> cleanstring (PStr ''<p $a>b$'') (PStr ''html'') = Inr (PStr ''<p>b$$'')"
  by (simp add: text_defs)

end
